theory Spec2Isabelle
  imports Complex_Main "HOL-Library.Product_Lexorder" "HOL-Library.Sublist" "HOL-Library.Multiset"
begin

section \<open>Wiki KPI report: a shallow embedding of \<open>Wiki_KPI_Report.py\<close>\<close>

text \<open>
  The script reads four spreadsheets into data frames, computes four tables and a
  date-range line, and builds one PDF. The embedding follows the script top to bottom.
  Library calls (pandas, \<open>re\<close>, \<open>collections.Counter\<close>, reportlab) are modelled by
  their documented behaviour; where a library routine has no closed description (the
  format-less date parser, the numeric-literal parser) it is a field of the record
  \<open>lib\<close> and every theorem holds for each value of it.

  A Python \<open>str\<close> is modelled as a \<open>string\<close> whose characters are the code points
  0..255 (ASCII and Latin-1); code points beyond 255 are outside the model.
\<close>

subsection \<open>Characters: \<open>\w\<close>, \<open>str.lower\<close>, \<open>str.split\<close>\<close>

definition code_point :: "char \<Rightarrow> nat" where
  "code_point c = of_char c"

text \<open>\<open>str.isalnum\<close> on one code point: letters, decimal digits and the other numeric
  characters of Unicode, here for the code points below 256.\<close>

definition is_alnum :: "char \<Rightarrow> bool" where
  "is_alnum c = (let n = code_point c in
     (48 \<le> n \<and> n \<le> 57) \<or> (65 \<le> n \<and> n \<le> 90) \<or> (97 \<le> n \<and> n \<le> 122) \<or>
     n = 170 \<or> n = 178 \<or> n = 179 \<or> n = 181 \<or> n = 185 \<or> n = 186 \<or>
     n = 188 \<or> n = 189 \<or> n = 190 \<or>
     (192 \<le> n \<and> n \<le> 214) \<or> (216 \<le> n \<and> n \<le> 246) \<or> (248 \<le> n \<and> n \<le> 255))"

text \<open>The regular-expression class \<open>\w\<close> for a \<open>str\<close> pattern: alphanumeric or the
  underscore. \<open>\W\<close> is its complement.\<close>

definition is_word :: "char \<Rightarrow> bool" where
  "is_word c = (is_alnum c \<or> c = CHR ''_'')"

text \<open>\<open>str.lower\<close> on one code point.\<close>

definition lower_char :: "char \<Rightarrow> char" where
  "lower_char c = (let n = code_point c in
     if (65 \<le> n \<and> n \<le> 90) \<or> (192 \<le> n \<and> n \<le> 214) \<or> (216 \<le> n \<and> n \<le> 222)
     then char_of (n + 32) else c)"

definition lower :: "string \<Rightarrow> string" where
  "lower s = map lower_char s"

text \<open>The characters \<open>str.split()\<close> treats as whitespace.\<close>

definition is_space :: "char \<Rightarrow> bool" where
  "is_space c = (let n = code_point c in
     (9 \<le> n \<and> n \<le> 13) \<or> (28 \<le> n \<and> n \<le> 32) \<or> n = 133 \<or> n = 160)"

text \<open>\<open>re.sub(P+, ' ', s)\<close> for a character class \<open>P\<close>: scanning from the left, every
  maximal run of characters of the class is replaced by one space.\<close>

function re_sub_runs :: "(char \<Rightarrow> bool) \<Rightarrow> string \<Rightarrow> string" where
  "re_sub_runs P [] = []"
| "re_sub_runs P (c # cs) =
     (if P c then CHR '' '' # re_sub_runs P (dropWhile P cs)
      else c # re_sub_runs P cs)"
  by pat_completeness auto
termination
  by (relation "measure (\<lambda>(P, s). length s)") (auto simp: length_dropWhile_le less_Suc_eq_le)

text \<open>\<open>str.split()\<close> with no argument: the maximal runs of non-whitespace characters.\<close>

function split_ws :: "string \<Rightarrow> string list" where
  "split_ws s =
     (case dropWhile is_space s of
        [] \<Rightarrow> []
      | c # cs \<Rightarrow> takeWhile (\<lambda>x. \<not> is_space x) (c # cs)
                 # split_ws (dropWhile (\<lambda>x. \<not> is_space x) cs))"
  by pat_completeness auto
termination
proof (relation "measure length", goal_cases)
  case 1
  show ?case by simp
next
  case (2 s c cs)
  have "length (dropWhile (\<lambda>x. \<not> is_space x) cs) \<le> length cs"
    by (rule length_dropWhile_le)
  moreover have "length (c # cs) \<le> length s"
    using 2 length_dropWhile_le [of is_space s] by simp
  ultimately show ?case by simp
qed

declare split_ws.simps [simp del]

subsection \<open>\<open>clean_query\<close> (lines 26-32)\<close>

definition clean_query :: "string \<Rightarrow> string list" where
  "clean_query query = split_ws (lower (re_sub_runs (\<lambda>c. \<not> is_word c) query))"

text \<open>The tokenization rule in the words of the specification and of the comment on
  line 27 ("Remove non-alphanumeric characters"): the runs replaced are the runs of
  non-alphanumeric characters.\<close>

definition tokenize_spec :: "string \<Rightarrow> string list" where
  "tokenize_spec query = split_ws (lower (re_sub_runs (\<lambda>c. \<not> is_alnum c) query))"

subsection \<open>Cells, data frames, errors\<close>

text \<open>A cell of a data frame as \<open>read_excel\<close> delivers it: text, an integer, a float, a
  date-formatted cell as a timestamp (nanoseconds since 1970-01-01, the representation
  of \<open>pandas.Timestamp\<close>), or a blank cell, which pandas represents by NaN. Floats are
  exact rationals here: rounding is outside the model.\<close>

datatype cell = Text string | IntNum int | FloatNum rat | Timestamp int | NaN

text \<open>A data frame is rectangular: its shape and the cell at each position.\<close>

record frame =
  nrows :: nat
  ncols :: nat
  cell_at :: "nat \<Rightarrow> nat \<Rightarrow> cell"

text \<open>The frame of a sheet given by its rows; positions a short row does not fill are
  blank.\<close>

definition frame_of_rows :: "nat \<Rightarrow> cell list list \<Rightarrow> frame" where
  "frame_of_rows n rs =
     \<lparr>nrows = length rs, ncols = n,
      cell_at = (\<lambda>i j. if i < length rs \<and> j < length (rs ! i) then rs ! i ! j else NaN)\<rparr>"

text \<open>The frame with one cell replaced.\<close>

definition set_cell :: "frame \<Rightarrow> nat \<Rightarrow> nat \<Rightarrow> cell \<Rightarrow> frame" where
  "set_cell df i j v =
     df\<lparr>cell_at := (\<lambda>i' j'. if i' = i \<and> j' = j then v else cell_at df i' j')\<rparr>"

datatype error =
  FileNotFoundError | IndexError | KeyError | TypeError | ValueError | OverflowError
  | OutOfBoundsDatetime

text \<open>\<open>pd.read_excel\<close>: the file's frame, or the error of a file that is not there.\<close>

definition read_excel :: "frame option \<Rightarrow> error + frame" where
  "read_excel file = (case file of None \<Rightarrow> Inl FileNotFoundError | Some df \<Rightarrow> Inr df)"

text \<open>\<open>df.iloc[i, j]\<close> with two non-negative integers.\<close>

definition iloc :: "frame \<Rightarrow> nat \<Rightarrow> nat \<Rightarrow> error + cell" where
  "iloc df i j =
     (if i < nrows df \<and> j < ncols df then Inr (cell_at df i j) else Inl IndexError)"

text \<open>\<open>df.iloc[lo:hi]\<close>: the row positions of a slice; a slice never raises.\<close>

definition row_slice :: "frame \<Rightarrow> nat \<Rightarrow> nat \<Rightarrow> nat list" where
  "row_slice df lo hi = [lo ..< min hi (nrows df)]"

text \<open>A list comprehension whose body can raise: the first error, in list order.\<close>

fun map_raise :: "('a \<Rightarrow> error + 'b) \<Rightarrow> 'a list \<Rightarrow> error + 'b list" where
  "map_raise f [] = Inr []"
| "map_raise f (x # xs) =
     (case f x of
        Inl e \<Rightarrow> Inl e
      | Inr y \<Rightarrow> (case map_raise f xs of Inl e \<Rightarrow> Inl e | Inr ys \<Rightarrow> Inr (y # ys)))"

subsection \<open>Calendar dates and timestamps\<close>

definition ns_per_day :: int where
  "ns_per_day = 86400000000000"

text \<open>A \<open>pandas.Timestamp\<close> holds a signed 64-bit count of nanoseconds; the least value
  is reserved for NaT.\<close>

definition in_bounds :: "int \<Rightarrow> bool" where
  "in_bounds t = (- (2 ^ 63) < t \<and> t < 2 ^ 63)"

definition is_leap :: "int \<Rightarrow> bool" where
  "is_leap y = (y mod 4 = 0 \<and> (y mod 100 \<noteq> 0 \<or> y mod 400 = 0))"

definition days_in_month :: "int \<Rightarrow> int \<Rightarrow> int" where
  "days_in_month y m =
     (if m = 2 then (if is_leap y then 29 else 28)
      else if m = 4 \<or> m = 6 \<or> m = 9 \<or> m = 11 then 30 else 31)"

text \<open>Days since 1970-01-01 of a date of the proleptic Gregorian calendar, and back.\<close>

definition days_from_civil :: "int \<Rightarrow> int \<Rightarrow> int \<Rightarrow> int" where
  "days_from_civil y m d =
     (let y' = (if m \<le> 2 then y - 1 else y);
          era = y' div 400;
          yoe = y' mod 400;
          doy = (153 * (if 2 < m then m - 3 else m + 9) + 2) div 5 + d - 1;
          doe = yoe * 365 + yoe div 4 - yoe div 100 + doy
      in era * 146097 + doe - 719468)"

definition civil_from_days :: "int \<Rightarrow> int \<times> int \<times> int" where
  "civil_from_days z0 =
     (let z = z0 + 719468;
          era = z div 146097;
          doe = z mod 146097;
          yoe = (doe - doe div 1460 + doe div 36524 - doe div 146096) div 365;
          doy = doe - (365 * yoe + yoe div 4 - yoe div 100);
          mp = (5 * doy + 2) div 153;
          d = doy - (153 * mp + 2) div 5 + 1;
          m = (if mp < 10 then mp + 3 else mp - 9)
      in (if m \<le> 2 then yoe + era * 400 + 1 else yoe + era * 400, m, d))"

definition digit_char :: "nat \<Rightarrow> char" where
  "digit_char n = char_of (48 + n)"

fun decimal :: "nat \<Rightarrow> string" where
  "decimal n = (if n < 10 then [digit_char n] else decimal (n div 10) @ [digit_char (n mod 10)])"

declare decimal.simps [simp del]

definition month_name :: "int \<Rightarrow> string" where
  "month_name m =
     [''January'', ''February'', ''March'', ''April'', ''May'', ''June'', ''July'',
      ''August'', ''September'', ''October'', ''November'', ''December''] ! nat (m - 1)"

text \<open>\<open>ts.strftime('%B %d, %Y')\<close>: the month's English name, the day on two digits, the
  year.\<close>

definition strftime_BdY :: "int \<Rightarrow> string" where
  "strftime_BdY t =
     (case civil_from_days (t div ns_per_day) of
        (y, m, d) \<Rightarrow>
          month_name m @ '' '' @ (if d < 10 then ''0'' else []) @ decimal (nat d)
          @ '', '' @ decimal (nat y))"

subsection \<open>The strict format \<open>%m/%d/%Y\<close> (line 48)\<close>

definition is_digit :: "char \<Rightarrow> bool" where
  "is_digit c = (48 \<le> code_point c \<and> code_point c \<le> 57)"

definition digit_val :: "char \<Rightarrow> int" where
  "digit_val c = int (code_point c) - 48"

text \<open>The format is compiled to the regular expression
  \<^verbatim>\<open>(1[0-2]|0[1-9]|[1-9])/(3[01]|[12]\d|0[1-9]|[1-9]| [1-9])/(\d\d\d\d)\<close>.
  Each group is modelled by the list of its alternatives that match at the head of the
  input, in the order the matcher tries them, each with the value read and the rest of
  the input.\<close>

definition month_alts :: "string \<Rightarrow> (int \<times> string) list" where
  "month_alts s =
     (case s of
        c1 # c2 # r \<Rightarrow>
          (if c1 = CHR ''1'' \<and> (c2 = CHR ''0'' \<or> c2 = CHR ''1'' \<or> c2 = CHR ''2'')
           then [(10 + digit_val c2, r)] else [])
          @ (if c1 = CHR ''0'' \<and> is_digit c2 \<and> c2 \<noteq> CHR ''0'' then [(digit_val c2, r)] else [])
      | _ \<Rightarrow> [])
     @ (case s of
          c1 # r \<Rightarrow> (if is_digit c1 \<and> c1 \<noteq> CHR ''0'' then [(digit_val c1, r)] else [])
        | [] \<Rightarrow> [])"

definition day_alts :: "string \<Rightarrow> (int \<times> string) list" where
  "day_alts s =
     (case s of
        c1 # c2 # r \<Rightarrow>
          (if c1 = CHR ''3'' \<and> (c2 = CHR ''0'' \<or> c2 = CHR ''1'')
           then [(30 + digit_val c2, r)] else [])
          @ (if (c1 = CHR ''1'' \<or> c1 = CHR ''2'') \<and> is_digit c2
             then [(10 * digit_val c1 + digit_val c2, r)] else [])
          @ (if c1 = CHR ''0'' \<and> is_digit c2 \<and> c2 \<noteq> CHR ''0'' then [(digit_val c2, r)] else [])
      | _ \<Rightarrow> [])
     @ (case s of
          c1 # r \<Rightarrow> (if is_digit c1 \<and> c1 \<noteq> CHR ''0'' then [(digit_val c1, r)] else [])
        | [] \<Rightarrow> [])
     @ (case s of
          c1 # c2 # r \<Rightarrow>
            (if c1 = CHR '' '' \<and> is_digit c2 \<and> c2 \<noteq> CHR ''0'' then [(digit_val c2, r)] else [])
        | _ \<Rightarrow> [])"

definition year_alts :: "string \<Rightarrow> (int \<times> string) list" where
  "year_alts s =
     (case s of
        c1 # c2 # c3 # c4 # r \<Rightarrow>
          (if is_digit c1 \<and> is_digit c2 \<and> is_digit c3 \<and> is_digit c4
           then [(1000 * digit_val c1 + 100 * digit_val c2 + 10 * digit_val c3 + digit_val c4, r)]
           else [])
      | _ \<Rightarrow> [])"

definition slash :: "string \<Rightarrow> string list" where
  "slash s = (case s of c # r \<Rightarrow> (if c = CHR ''/'' then [r] else []) | [] \<Rightarrow> [])"

text \<open>\<open>format_regex.match(val)\<close>: the first match in the matcher's order, as month, day,
  year and the unmatched rest.\<close>

definition match_mdY :: "string \<Rightarrow> (int \<times> int \<times> int \<times> string) option" where
  "match_mdY s =
     (case concat (map (\<lambda>(m, r1). concat (map (\<lambda>r2. concat (map (\<lambda>(d, r3).
             concat (map (\<lambda>r4. map (\<lambda>(y, r5). (m, d, y, r5)) (year_alts r4)) (slash r3)))
           (day_alts r2))) (slash r1))) (month_alts s)) of
        [] \<Rightarrow> None
      | x # _ \<Rightarrow> Some x)"

text \<open>Parsing one text under the format with \<open>errors='coerce'\<close>: \<open>None\<close> is NaT. The
  text must match as a whole, name a date of the calendar (years from 1) and lie within
  the bounds of a nanosecond timestamp (pandas 2). The texts \<open>now\<close> and \<open>today\<close>, which
  pandas reads as the clock's time, are outside the model.\<close>

definition strptime_mdY :: "string \<Rightarrow> int option" where
  "strptime_mdY s =
     (case match_mdY s of
        None \<Rightarrow> None
      | Some (m, d, y, rest) \<Rightarrow>
          if rest \<noteq> [] then None
          else if y < 1 \<or> days_in_month y m < d then None
          else (let t = days_from_civil y m d * ns_per_day
                in if in_bounds t then Some t else None))"

text \<open>\<open>pd.to_datetime(cell, format='%m/%d/%Y', errors='coerce')\<close> on one cell (lines
  51-52). A number is matched through its decimal text, which has no \<open>/\<close>, and so never
  matches; a timestamp passes; a blank cell is NaT.\<close>

fun to_datetime_format :: "cell \<Rightarrow> int option" where
  "to_datetime_format (Text s) = strptime_mdY s"
| "to_datetime_format (IntNum n) = None"
| "to_datetime_format (FloatNum r) = None"
| "to_datetime_format (Timestamp t) = (if in_bounds t then Some t else None)"
| "to_datetime_format NaN = None"

subsection \<open>The date range (lines 48-60)\<close>

text \<open>The lines printed, and \<open>formatted_start_date\<close> and \<open>formatted_end_date\<close>.\<close>

definition date_range :: "cell \<Rightarrow> cell \<Rightarrow> string list \<times> string \<times> string" where
  "date_range start_date_serial end_date_serial =
     (let start_date = to_datetime_format start_date_serial;
          end_date = to_datetime_format end_date_serial
      in if start_date = None \<or> end_date = None
         then ([''Error: Start or end date is missing or invalid in the Excel file.''],
               ''Unavailable'', ''Unavailable'')
         else ([], strftime_BdY (the start_date), strftime_BdY (the end_date)))"

text \<open>The text of the paragraph of line 98.\<close>

definition date_line :: "string \<Rightarrow> string \<Rightarrow> string" where
  "date_line formatted_start_date formatted_end_date =
     ''Data from '' @ formatted_start_date @ '' to '' @ formatted_end_date"

subsection \<open>Library routines without a closed description\<close>

text \<open>Floats as \<open>to_numeric\<close> can produce them: a finite value or an infinity (NaN is
  \<open>None\<close> of \<open>fnum option\<close>).\<close>

datatype fnum = NegInf | Fin rat | PosInf

text \<open>
  \<^item> \<open>parse_datetime\<close>: \<open>pd.to_datetime\<close> without a format on a text; \<open>None\<close> when the
    parser raises or answers NaT.
  \<^item> \<open>numeric_of\<close>: \<open>pd.to_numeric(errors='coerce')\<close> on a cell that is not a number;
    \<open>None\<close> is NaN.
  \<^item> \<open>keeps_nan\<close>: whether \<open>nlargest\<close> fills up with NaN rows when fewer than \<open>n\<close>
    rows hold a number (pandas 2 does; earlier versions drop them).
\<close>

record lib =
  parse_datetime :: "string \<Rightarrow> int option"
  numeric_of :: "cell \<Rightarrow> fnum option"
  keeps_nan :: bool

subsection \<open>Categories (lines 62, 102)\<close>

text \<open>\<open>categories_df.iloc[4:14, :2].values.tolist()\<close>.\<close>

definition category_data :: "frame \<Rightarrow> cell list list" where
  "category_data categories_df =
     map (\<lambda>i. map (cell_at categories_df i) [0 ..< min 2 (ncols categories_df)])
       (row_slice categories_df 4 14)"

subsection \<open>Articles (lines 65-69)\<close>

definition py_trunc :: "rat \<Rightarrow> int" where
  "py_trunc r = (if 0 \<le> r then \<lfloor>r\<rfloor> else \<lceil>r\<rceil>)"

text \<open>\<open>pd.to_datetime(cell)\<close> with no format and \<open>errors='raise'\<close>: a number counts
  nanoseconds since 1970-01-01 (the least 64-bit value is NaT), a blank cell is NaT
  (\<open>Inr None\<close>).\<close>

fun to_datetime :: "lib \<Rightarrow> cell \<Rightarrow> error + int option" where
  "to_datetime L (Text s) =
     (case parse_datetime L s of None \<Rightarrow> Inl ValueError | Some t \<Rightarrow> Inr (Some t))"
| "to_datetime L (IntNum n) =
     (if n = - (2 ^ 63) then Inr None
      else if in_bounds n then Inr (Some n) else Inl OutOfBoundsDatetime)"
| "to_datetime L (FloatNum r) =
     (if in_bounds (py_trunc r) then Inr (Some (py_trunc r)) else Inl OutOfBoundsDatetime)"
| "to_datetime L (Timestamp t) = (if in_bounds t then Inr (Some t) else Inl OutOfBoundsDatetime)"
| "to_datetime L NaN = Inr None"

text \<open>\<open>.strftime('%B %d, %Y')\<close> on the result: NaT raises.\<close>

fun strftime_raise :: "int option \<Rightarrow> error + string" where
  "strftime_raise None = Inl ValueError"
| "strftime_raise (Some t) = Inr (strftime_BdY t)"

text \<open>One row of the comprehension of line 67.\<close>

definition question_row :: "lib \<Rightarrow> frame \<Rightarrow> nat \<Rightarrow> error + cell list" where
  "question_row L questions_df i =
     (case to_datetime L (cell_at questions_df i 8) of
        Inl e \<Rightarrow> Inl e
      | Inr ts \<Rightarrow>
          (case strftime_raise ts of
             Inl e \<Rightarrow> Inl e
           | Inr s \<Rightarrow> Inr [cell_at questions_df i 1, cell_at questions_df i 3, Text s]))"

text \<open>\<open>iloc[4:14, [1, 3, 8]]\<close> raises when a listed column is not there.\<close>

definition questions_data :: "lib \<Rightarrow> frame \<Rightarrow> error + cell list list" where
  "questions_data L questions_df =
     (if ncols questions_df \<le> 8 then Inl IndexError
      else case map_raise (question_row L questions_df) (row_slice questions_df 4 14) of
             Inl e \<Rightarrow> Inl e
           | Inr rows \<Rightarrow> Inr ([Text ''Article'', Text ''Views'', Text ''Last Updated''] # rows))"


subsection \<open>Searches (lines 72-83)\<close>

text \<open>\<open>clean_query\<close> applied to a cell: \<open>re.sub\<close> raises on anything but a string.\<close>

fun apply_clean_query :: "cell \<Rightarrow> error + string list" where
  "apply_clean_query (Text s) = Inr (clean_query s)"
| "apply_clean_query _ = Inl TypeError"

text \<open>\<open>collections.Counter\<close>: a dictionary, so its items are in the order of first
  insertion. Counting one more occurrence of a word:\<close>

fun counter_add :: "string \<Rightarrow> (string \<times> int) list \<Rightarrow> (string \<times> int) list" where
  "counter_add w [] = [(w, 1)]"
| "counter_add w ((k, c) # kcs) =
     (if k = w then (k, c + 1) # kcs else (k, c) # counter_add w kcs)"

definition Counter :: "string list \<Rightarrow> (string \<times> int) list" where
  "Counter ws = foldl (\<lambda>acc w. counter_add w acc) [] ws"

text \<open>\<open>sorted(xs, key=f, reverse=True)\<close>: descending, and stable (elements with equal
  keys keep their order): Python reverses, sorts stably, and reverses again.\<close>

definition sort_desc_stable :: "('a \<Rightarrow> 'k::linorder) \<Rightarrow> 'a list \<Rightarrow> 'a list" where
  "sort_desc_stable f xs = rev (sort_key f (rev xs))"

text \<open>\<open>Counter.most_common(n)\<close> is \<open>heapq.nlargest(n, items, key=count)\<close>, documented as
  \<open>sorted(items, key=count, reverse=True)[:n]\<close>.\<close>

definition most_common :: "nat \<Rightarrow> (string \<times> int) list \<Rightarrow> (string \<times> int) list" where
  "most_common n word_counts = take n (sort_desc_stable snd word_counts)"

text \<open>\<open>all_words\<close> of line 76: the tokens of column 1, all rows, in order.\<close>

definition all_words :: "frame \<Rightarrow> error + string list" where
  "all_words searches_df =
     (if ncols searches_df \<le> 1 then Inl KeyError
      else case map_raise (\<lambda>i. apply_clean_query (cell_at searches_df i 1))
                  [0 ..< nrows searches_df] of
             Inl e \<Rightarrow> Inl e
           | Inr tokens \<Rightarrow> Inr (concat tokens))"

definition search_data :: "frame \<Rightarrow> error + cell list list" where
  "search_data searches_df =
     (case all_words searches_df of
        Inl e \<Rightarrow> Inl e
      | Inr ws \<Rightarrow>
          Inr ([Text ''Query'', Text ''Searches'']
               # map (\<lambda>(word, n). [Text word, IntNum n]) (most_common 5 (Counter ws))))"

subsection \<open>Users (lines 86-91)\<close>

text \<open>\<open>pd.to_numeric(column, errors='coerce')\<close> on one cell.\<close>

fun to_numeric :: "lib \<Rightarrow> cell \<Rightarrow> fnum option" where
  "to_numeric L (IntNum n) = Some (Fin (of_int n))"
| "to_numeric L (FloatNum r) = Some (Fin r)"
| "to_numeric L NaN = None"
| "to_numeric L c = numeric_of L c"

text \<open>The order of floats, through a key in the lexicographic order of pairs.\<close>

fun rank :: "fnum \<Rightarrow> int \<times> rat" where
  "rank NegInf = (- 1, 0)"
| "rank (Fin r) = (0, r)"
| "rank PosInf = (1, 0)"

text \<open>\<open>rows.nlargest(n, column)\<close> with \<open>keep='first'\<close>, on row positions: the rows that
  hold a number, descending, equal values in their original order; then, where the
  library keeps them, the NaN rows; cut at \<open>n\<close>.\<close>

definition nlargest :: "lib \<Rightarrow> nat \<Rightarrow> (nat \<Rightarrow> fnum option) \<Rightarrow> nat list \<Rightarrow> nat list" where
  "nlargest L n column rows =
     take n (sort_desc_stable (\<lambda>i. rank (the (column i))) (filter (\<lambda>i. column i \<noteq> None) rows)
             @ (if keeps_nan L then filter (\<lambda>i. column i = None) rows else []))"

text \<open>\<open>int(views)\<close> on a float.\<close>

fun py_int :: "fnum option \<Rightarrow> error + int" where
  "py_int None = Inl ValueError"
| "py_int (Some (Fin r)) = Inr (py_trunc r)"
| "py_int (Some NegInf) = Inl OverflowError"
| "py_int (Some PosInf) = Inl OverflowError"

definition views :: "lib \<Rightarrow> frame \<Rightarrow> nat \<Rightarrow> fnum option" where
  "views L users_df i = to_numeric L (cell_at users_df i 3)"

definition top_users :: "lib \<Rightarrow> frame \<Rightarrow> nat list" where
  "top_users L users_df = nlargest L 10 (views L users_df) [4 ..< nrows users_df]"

definition user_row :: "lib \<Rightarrow> frame \<Rightarrow> nat \<Rightarrow> error + cell list" where
  "user_row L users_df i =
     (case py_int (views L users_df i) of
        Inl e \<Rightarrow> Inl e
      | Inr v \<Rightarrow> Inr [cell_at users_df i 0, IntNum v])"

definition user_data :: "lib \<Rightarrow> frame \<Rightarrow> error + cell list list" where
  "user_data L users_df =
     (if ncols users_df \<le> 3 then Inl KeyError
      else case map_raise (user_row L users_df) (top_users L users_df) of
             Inl e \<Rightarrow> Inl e
           | Inr rows \<Rightarrow> Inr ([Text ''User'', Text ''Views''] # rows))"

subsection \<open>The report (lines 34-156)\<close>

text \<open>The document is the list of flowables handed to \<open>doc.build\<close>; styling is left
  out.\<close>

datatype flowable = Paragraph string | Spacer | Table "cell list list"

record inputs =
  categories_xls :: "frame option"
  questions_xls :: "frame option"
  searches_xls :: "frame option"
  users_xls :: "frame option"

record tables =
  categories_table :: "cell list list"
  questions_table :: "cell list list"
  search_table :: "cell list list"
  user_table :: "cell list list"

text \<open>Lines 62-91 and 102: the four tables, in the order the script computes them.\<close>

definition aggregate :: "lib \<Rightarrow> inputs \<Rightarrow> frame \<Rightarrow> error + tables" where
  "aggregate L inp categories_df =
     (case read_excel (questions_xls inp) of Inl e \<Rightarrow> Inl e | Inr questions_df \<Rightarrow>
      case questions_data L questions_df of Inl e \<Rightarrow> Inl e | Inr q \<Rightarrow>
      case read_excel (searches_xls inp) of Inl e \<Rightarrow> Inl e | Inr searches_df \<Rightarrow>
      case search_data searches_df of Inl e \<Rightarrow> Inl e | Inr s \<Rightarrow>
      case read_excel (users_xls inp) of Inl e \<Rightarrow> Inl e | Inr users_df \<Rightarrow>
      case user_data L users_df of Inl e \<Rightarrow> Inl e | Inr u \<Rightarrow>
      Inr \<lparr>categories_table = [Text ''Categories'', Text ''Views''] # category_data categories_df,
           questions_table = q, search_table = s, user_table = u\<rparr>)"

definition story :: "string \<Rightarrow> string \<Rightarrow> tables \<Rightarrow> flowable list" where
  "story formatted_start_date formatted_end_date t =
     [Paragraph ''Wiki KPI Report'',
      Paragraph (date_line formatted_start_date formatted_end_date),
      Spacer,
      Paragraph ''Top 10 Most Viewed Categories'', Table (categories_table t),
      Paragraph ''Top 10 Most Viewed Articles'', Table (questions_table t),
      Paragraph ''Top 5 Most Used Search Queries'', Table (search_table t),
      Paragraph ''Top 10 Users by Articles Viewed'', Table (user_table t)]"

definition is_table :: "flowable \<Rightarrow> bool" where
  "is_table x = (case x of Table _ \<Rightarrow> True | _ \<Rightarrow> False)"

text \<open>One run: the lines printed, and either the error that ended the run or the document
  written by \<open>doc.build\<close> on line 155, the only place that writes the file. The renderer
  is taken to lay out every story it is handed: an error raised inside \<open>doc.build\<close> is
  outside the model.\<close>

definition run :: "lib \<Rightarrow> inputs \<Rightarrow> string list \<times> (error + flowable list)" where
  "run L inp =
     (case read_excel (categories_xls inp) of Inl e \<Rightarrow> ([], Inl e) | Inr categories_df \<Rightarrow>
      case iloc categories_df 0 1 of Inl e \<Rightarrow> ([], Inl e) | Inr start_date_serial \<Rightarrow>
      case iloc categories_df 1 1 of Inl e \<Rightarrow> ([], Inl e) | Inr end_date_serial \<Rightarrow>
      case date_range start_date_serial end_date_serial of
        (printed, formatted_start_date, formatted_end_date) \<Rightarrow>
      case aggregate L inp categories_df of Inl e \<Rightarrow> (printed, Inl e) | Inr t \<Rightarrow>
        (printed @ [''PDF report generated successfully!''],
         Inr (story formatted_start_date formatted_end_date t)))"

subsection \<open>\<open>excel_date_to_datetime\<close> (lines 11-24)\<close>

text \<open>The script defines this conversion of a serial date and never calls it.\<close>

text \<open>The whitespace \<open>int()\<close> skips at both ends of a text: the ASCII whitespace, and
  the two spaces of Latin-1.\<close>

definition is_int_space :: "char \<Rightarrow> bool" where
  "is_int_space c = (let n = code_point c in (9 \<le> n \<and> n \<le> 13) \<or> n = 32 \<or> n = 133 \<or> n = 160)"

definition strip :: "string \<Rightarrow> string" where
  "strip s = rev (dropWhile is_int_space (rev (dropWhile is_int_space s)))"

text \<open>The digits of a decimal literal: groups of digits, single underscores between.\<close>

fun digit_groups :: "string \<Rightarrow> bool" where
  "digit_groups [] = False"
| "digit_groups [c] = is_digit c"
| "digit_groups (c # d # r) =
     (is_digit c \<and> (if d = CHR ''_'' then digit_groups r else digit_groups (d # r)))"

text \<open>\<open>int(text)\<close>: \<open>None\<close> is the \<open>ValueError\<close> of a text that is no decimal literal,
  or that has more than 4300 digits.\<close>

definition int_of_text :: "string \<Rightarrow> int option" where
  "int_of_text s =
     (let t = strip s;
          negative = (case t of c # _ \<Rightarrow> c = CHR ''-'' | [] \<Rightarrow> False);
          body = (case t of c # r \<Rightarrow> (if c = CHR ''-'' \<or> c = CHR ''+'' then r else t) | [] \<Rightarrow> [])
      in if digit_groups body \<and> length (filter is_digit body) \<le> 4300
         then (let v = foldl (\<lambda>a c. 10 * a + digit_val c) 0 (filter is_digit body)
               in Some (if negative then - v else v))
         else None)"

text \<open>\<open>datetime(1899, 12, 30) + timedelta(days=serial_date)\<close> as a calendar date; the sum
  must stay within the years 1 to 9999.\<close>

definition excel_epoch_plus :: "int \<Rightarrow> error + (int \<times> int \<times> int) option" where
  "excel_epoch_plus serial_date =
     (let z = days_from_civil 1899 12 30 + serial_date
      in if days_from_civil 1 1 1 \<le> z \<and> z \<le> days_from_civil 9999 12 31
         then Inr (Some (civil_from_days z)) else Inl OverflowError)"

fun excel_date_to_datetime :: "cell \<Rightarrow> error + (int \<times> int \<times> int) option" where
  "excel_date_to_datetime NaN = Inr None"
| "excel_date_to_datetime (IntNum n) = excel_epoch_plus n"
| "excel_date_to_datetime (FloatNum r) = excel_epoch_plus (py_trunc r)"
| "excel_date_to_datetime (Text s) =
     (case int_of_text s of None \<Rightarrow> Inr None | Some n \<Rightarrow> excel_epoch_plus n)"
| "excel_date_to_datetime (Timestamp t) = Inl TypeError"

subsection \<open>Sample inputs\<close>

definition sample_lib :: lib where
  "sample_lib = \<lparr>parse_datetime = (\<lambda>s. None), numeric_of = (\<lambda>c. None), keeps_nan = True\<rparr>"

definition sample_categories :: frame where
  "sample_categories = frame_of_rows 2
     [[Text ''Start'', Text ''03/01/2024''], [Text ''End'', Text ''3/31/2024''], [],
      [Text ''Category'', Text ''Views''],
      [Text ''Billing'', IntNum 40], [Text ''Setup'', Text ''n/a'']]"

definition sample_questions :: frame where
  "sample_questions = frame_of_rows 9
     [[], [], [], [],
      [NaN, Text ''How to log in'', NaN, IntNum 12, NaN, NaN, NaN, NaN,
       Timestamp 1710460800000000000],
      [NaN, Text ''Reset a password'', NaN, IntNum 9, NaN, NaN, NaN, NaN, IntNum 0]]"

definition sample_searches :: frame where
  "sample_searches = frame_of_rows 2
     [[IntNum 1, Text ''Reset password''], [IntNum 2, Text ''password, reset!''],
      [IntNum 3, Text ''billing_faq reset''], [IntNum 4, Text ''Login'']]"

definition sample_users :: frame where
  "sample_users = frame_of_rows 4
     [[Text ''User'', NaN, NaN, Text ''Views''], [], [], [],
      [Text ''ann'', NaN, NaN, IntNum 5], [Text ''bob'', NaN, NaN, FloatNum (15 / 2)],
      [Text ''cy'', NaN, NaN, IntNum 5]]"

definition sample_inputs :: inputs where
  "sample_inputs =
     \<lparr>categories_xls = Some sample_categories, questions_xls = Some sample_questions,
      searches_xls = Some sample_searches, users_xls = Some sample_users\<rparr>"

text \<open>The same files with the end-date cell left blank, and with the articles file
  missing.\<close>

definition sample_categories_undated :: frame where
  "sample_categories_undated = frame_of_rows 2
     [[Text ''Start'', Text ''03/01/2024''], [Text ''End'', NaN], [],
      [Text ''Category'', Text ''Views''], [Text ''Billing'', IntNum 40]]"

definition sample_inputs_undated :: inputs where
  "sample_inputs_undated = sample_inputs\<lparr>categories_xls := Some sample_categories_undated\<rparr>"

definition sample_inputs_no_articles :: inputs where
  "sample_inputs_no_articles = sample_inputs\<lparr>questions_xls := None\<rparr>"

text \<open>Searches with seven distinct tokens, the most frequent not first.\<close>

definition sample_searches_many :: frame where
  "sample_searches_many = frame_of_rows 2
     [[IntNum 1, Text ''delta''], [IntNum 2, Text ''Alpha beta''],
      [IntNum 3, Text ''beta, gamma; alpha''], [IntNum 4, Text ''epsilon zeta BETA''],
      [IntNum 5, Text ''eta alpha'']]"

text \<open>Views cells that are no numbers, in the categories and in the articles file.\<close>

definition sample_categories_malformed :: frame where
  "sample_categories_malformed = frame_of_rows 2
     [[Text ''Start'', Text ''03/01/2024''], [Text ''End'', Text ''3/31/2024''], [],
      [Text ''Category'', Text ''Views''],
      [Text ''Billing'', IntNum 40], [Text ''Setup'', Text ''forty'']]"

definition sample_questions_malformed :: frame where
  "sample_questions_malformed = frame_of_rows 9
     [[], [], [], [],
      [NaN, Text ''How to log in'', NaN, Text ''a dozen'', NaN, NaN, NaN, NaN,
       Timestamp 1710460800000000000]]"

definition sample_inputs_malformed :: inputs where
  "sample_inputs_malformed =
     sample_inputs\<lparr>categories_xls := Some sample_categories_malformed,
                   questions_xls := Some sample_questions_malformed\<rparr>"

text \<open>Two user rows from position 4 on, the views cell of the second left blank.\<close>

definition sample_users_blank :: frame where
  "sample_users_blank = frame_of_rows 4
     [[Text ''User'', NaN, NaN, Text ''Views''], [], [], [],
      [Text ''ann'', NaN, NaN, IntNum 5], [Text ''dee'', NaN, NaN, NaN]]"

section \<open>Properties\<close>

subsection \<open>The tokenizer\<close>

lemma re_sub_runs_none: "list_all (\<lambda>c. \<not> P c) s \<Longrightarrow> re_sub_runs P s = s"
  by (induction s) auto

lemma split_ws_single:
  assumes "s \<noteq> []" and "\<forall>c\<in>set s. \<not> is_space c"
  shows "split_ws s = [s]"
proof -
  obtain c cs where s: "s = c # cs" using assms(1) by (cases s) auto
  have d: "dropWhile is_space s = c # cs" using assms(2) s by simp
  have t: "takeWhile (\<lambda>x. \<not> is_space x) (c # cs) = s"
    using assms(2) s by simp
  have e: "dropWhile (\<lambda>x. \<not> is_space x) cs = []"
    using assms(2) s by simp
  have n: "split_ws [] = []"
    by (subst split_ws.simps) simp
  have "split_ws s = takeWhile (\<lambda>x. \<not> is_space x) (c # cs)
      # split_ws (dropWhile (\<lambda>x. \<not> is_space x) cs)"
    by (subst split_ws.simps) (simp only: d list.case)
  then show ?thesis by (simp only: t e n)
qed

lemma word_lower_not_space: "is_word c \<Longrightarrow> \<not> is_space (lower_char c)"
  unfolding is_word_def is_alnum_def is_space_def lower_char_def code_point_def Let_def
  by (auto simp: of_char_of)

lemma clean_query_one_word:
  assumes "s \<noteq> []" and "list_all is_word s"
  shows "clean_query s = [lower s]"
proof -
  have "re_sub_runs (\<lambda>c. \<not> is_word c) s = s"
    using assms(2) by (intro re_sub_runs_none) (simp add: list_all_iff)
  moreover have "\<forall>c\<in>set (lower s). \<not> is_space c"
    using assms(2) by (auto simp: lower_def list_all_iff word_lower_not_space)
  moreover have "lower s \<noteq> []" using assms(1) by (simp add: lower_def)
  ultimately show ?thesis by (simp add: clean_query_def split_ws_single)
qed

text \<open>
  C2 (the code departs from the rule). The rule replaces every run of non-alphanumeric
  characters; \<open>clean_query\<close> replaces the runs of \<open>\W\<close>, and the underscore is not in
  \<open>\W\<close>. On \<open>foo_bar\<close> the rule gives two tokens and the code gives one.
\<close>

theorem clean_query_differs_from_rule:
  "clean_query ''foo_bar'' = [''foo_bar''] \<and> tokenize_spec ''foo_bar'' = [''foo'', ''bar'']"
  by code_simp

text \<open>
  C10. The underscore is a word character for the tokenizer: a query made of
  alphanumerics, one underscore and alphanumerics is a single token, the query in lower
  case with the underscore kept.
\<close>

theorem clean_query_underscore:
  assumes "list_all is_alnum a" and "list_all is_alnum b"
  shows "is_word CHR ''_'' \<and> clean_query (a @ ''_'' @ b) = [lower a @ ''_'' @ lower b]"
proof -
  have "list_all is_word (a @ ''_'' @ b)"
    using assms by (auto simp: list_all_iff is_word_def)
  then have "clean_query (a @ ''_'' @ b) = [lower (a @ ''_'' @ b)]"
    by (intro clean_query_one_word) simp_all
  moreover have "lower ''_'' = ''_''" by code_simp
  ultimately show ?thesis by (simp add: lower_def is_word_def)
qed

theorem clean_query_underscore_witness:
  "list_all is_alnum ''foo'' \<and> list_all is_alnum ''bar''
   \<and> clean_query (''foo'' @ ''_'' @ ''bar'') = [''foo_bar'']"
proof -
  have a: "list_all is_alnum ''foo''" by code_simp
  have b: "list_all is_alnum ''bar''" by code_simp
  have l: "lower ''foo'' @ ''_'' @ lower ''bar'' = ''foo_bar''" by code_simp
  from clean_query_underscore [OF a b] l a b show ?thesis by simp
qed

subsection \<open>Stable descending order, comprehensions, counters\<close>

lemma sort_desc_stable_mset [simp]: "mset (sort_desc_stable f xs) = mset xs"
  by (simp add: sort_desc_stable_def)

lemma sort_desc_stable_set [simp]: "set (sort_desc_stable f xs) = set xs"
  by (simp add: sort_desc_stable_def)

lemma sort_desc_stable_length [simp]: "length (sort_desc_stable f xs) = length xs"
  by (simp add: sort_desc_stable_def)

lemma sort_desc_stable_distinct [simp]: "distinct (sort_desc_stable f xs) = distinct xs"
  by (simp add: sort_desc_stable_def)

lemma sort_desc_stable_sorted: "sorted (rev (map f (sort_desc_stable f xs)))"
  by (simp add: sort_desc_stable_def rev_map)

lemma sort_desc_stable_filter:
  "filter (\<lambda>y. f y = k) (sort_desc_stable f xs) = filter (\<lambda>y. f y = k) xs"
  by (simp add: sort_desc_stable_def rev_filter [symmetric] sort_key_stable)

lemma sorted_rev_map_iff: "sorted (rev (map f xs)) = sorted_wrt (\<lambda>a b. f b \<le> f a) xs"
  by (induction xs) (auto simp: sorted_append)

lemma take_sort_desc_sorted:
  "sorted_wrt (\<lambda>a b. f b \<le> f a) (take n (sort_desc_stable f xs))"
  using sort_desc_stable_sorted [of f xs] sorted_wrt_take
  by (simp add: sorted_rev_map_iff sorted_wrt_take)

lemma take_sort_desc_top:
  assumes "a \<in> set (take n (sort_desc_stable f xs))"
    and "b \<in> set xs" and "b \<notin> set (take n (sort_desc_stable f xs))"
  shows "f b \<le> f a"
proof -
  let ?S = "sort_desc_stable f xs"
  have "b \<in> set (take n ?S @ drop n ?S)" using assms(2) by simp
  then have b: "b \<in> set (drop n ?S)" using assms(3) by (simp del: append_take_drop_id)
  have "sorted_wrt (\<lambda>a b. f b \<le> f a) (take n ?S @ drop n ?S)"
    using sort_desc_stable_sorted [of f xs] by (simp add: sorted_rev_map_iff)
  then show ?thesis using assms(1) b unfolding sorted_wrt_append by blast
qed

lemma take_sort_desc_ties:
  "prefix (filter (\<lambda>y. f y = k) (take n (sort_desc_stable f xs))) (filter (\<lambda>y. f y = k) xs)"
proof -
  let ?S = "sort_desc_stable f xs"
  have "filter (\<lambda>y. f y = k) ?S
      = filter (\<lambda>y. f y = k) (take n ?S) @ filter (\<lambda>y. f y = k) (drop n ?S)"
    by (simp add: filter_append [symmetric])
  then show ?thesis
    unfolding sort_desc_stable_filter by (metis prefixI)
qed

lemma map_raise_Inr_iff:
  "map_raise f xs = Inr ys \<longleftrightarrow> length ys = length xs \<and> (\<forall>i<length xs. f (xs ! i) = Inr (ys ! i))"
proof (induction xs arbitrary: ys)
  case Nil
  then show ?case by auto
next
  case (Cons x xs)
  show ?case
  proof (cases ys)
    case Nil
    then show ?thesis by (auto split: sum.splits)
  next
    case (Cons y ys')
    then show ?thesis using Cons.IH [of ys']
      by (auto split: sum.splits simp: nth_Cons less_Suc_eq_0_disj)
  qed
qed

lemma map_raise_Inr_map:
  "map_raise f xs = Inr ys \<Longrightarrow> map f xs = map Inr ys"
  by (induction xs arbitrary: ys) (auto split: sum.splits)

lemma map_raise_all_Inr:
  "(\<And>x. x \<in> set xs \<Longrightarrow> f x = Inr (g x)) \<Longrightarrow> map_raise f xs = Inr (map g xs)"
  by (induction xs) auto

lemma map_raise_Inl:
  "x \<in> set xs \<Longrightarrow> f x = Inl e \<Longrightarrow> \<exists>e'. map_raise f xs = Inl e'"
  by (induction xs) (auto split: sum.splits)

lemma counter_add_keys:
  "map fst (counter_add w kcs) = (if w \<in> fst ` set kcs then map fst kcs else map fst kcs @ [w])"
  by (induction kcs) (fastforce simp: image_iff)+

lemma counter_add_sum: "sum_list (map snd (counter_add w kcs)) = sum_list (map snd kcs) + 1"
  by (induction kcs) auto

lemma counter_add_lookup:
  "distinct (map fst kcs) \<Longrightarrow>
   map_of (counter_add w kcs) =
     (map_of kcs)(w \<mapsto> (case map_of kcs w of None \<Rightarrow> 1 | Some c \<Rightarrow> c + 1))"
proof (induction kcs)
  case Nil
  then show ?case by simp
next
  case (Cons kc kcs)
  obtain k c where kc: "kc = (k, c)" by (cases kc)
  show ?case
  proof (cases "k = w")
    case True
    then show ?thesis using kc by (auto simp: fun_eq_iff)
  next
    case False
    then show ?thesis using kc Cons by (auto simp: fun_eq_iff)
  qed
qed

lemma Counter_snoc: "Counter (ws @ [w]) = counter_add w (Counter ws)"
  by (simp add: Counter_def)

lemma Counter_keys: "map fst (Counter ws) = rev (remdups (rev ws))"
proof (induction ws rule: rev_induct)
  case Nil
  then show ?case by (simp add: Counter_def)
next
  case (snoc w ws)
  have "fst ` set (Counter ws) = set ws"
    using snoc by (metis set_map set_remdups set_rev)
  then show ?case using snoc by (simp add: Counter_snoc counter_add_keys)
qed

lemma Counter_distinct: "distinct (map fst (Counter ws))"
  by (simp add: Counter_keys)

lemma Counter_key_set: "fst ` set (Counter ws) = set ws"
  using Counter_keys [of ws] by (metis set_map set_remdups set_rev)

lemma Counter_lookup:
  "map_of (Counter ws) w = (if w \<in> set ws then Some (int (count_list ws w)) else None)"
proof (induction ws arbitrary: w rule: rev_induct)
  case Nil
  then show ?case by (simp add: Counter_def)
next
  case (snoc x ws)
  show ?case
    using snoc [of w] snoc [of x]
    by (simp add: Counter_snoc counter_add_lookup Counter_distinct)
qed

lemma Counter_count:
  assumes "(w, c) \<in> set (Counter ws)"
  shows "c = int (count_list ws w) \<and> 0 < c \<and> w \<in> set ws"
proof -
  have "map_of (Counter ws) w = Some c"
    using assms Counter_distinct by (simp add: map_of_eq_Some_iff)
  then have "w \<in> set ws" and "c = int (count_list ws w)"
    using Counter_lookup [of ws w] by (auto split: if_splits)
  moreover have "0 < count_list ws w"
    using \<open>w \<in> set ws\<close> count_list_0_iff [of ws w] by simp
  ultimately show ?thesis by simp
qed

lemma Counter_sum: "sum_list (map snd (Counter ws)) = int (length ws)"
  by (induction ws rule: rev_induct) (simp_all add: Counter_def counter_add_sum)

lemma sum_list_take_le:
  fixes xs :: "int list"
  assumes "\<forall>x\<in>set xs. 0 \<le> x"
  shows "sum_list (take n xs) \<le> sum_list xs"
proof -
  have "sum_list xs = sum_list (take n xs) + sum_list (drop n xs)"
    by (metis append_take_drop_id sum_list_append)
  moreover have "0 \<le> sum_list (drop n xs)"
    using assms by (meson in_set_dropD sum_list_nonneg)
  ultimately show ?thesis by simp
qed

lemma most_common_sum:
  assumes "\<forall>kc\<in>set kcs. 0 \<le> snd kc"
  shows "sum_list (map snd (most_common n kcs)) \<le> sum_list (map snd kcs)"
proof -
  let ?S = "sort_desc_stable snd kcs"
  have "mset (map snd ?S) = mset (map snd kcs)" by simp
  then have eq: "sum_list (map snd ?S) = sum_list (map snd kcs)"
    by (metis sum_mset_sum_list)
  have "\<forall>x\<in>set (map snd ?S). 0 \<le> x" using assms by auto
  then have "sum_list (take n (map snd ?S)) \<le> sum_list (map snd ?S)"
    by (rule sum_list_take_le)
  then show ?thesis by (simp add: most_common_def take_map eq)
qed

subsection \<open>The search aggregator\<close>

lemma all_words_total:
  assumes "1 < ncols df" and "\<forall>i<nrows df. \<exists>s. cell_at df i 1 = Text s"
  shows "\<exists>ws. all_words df = Inr ws"
proof -
  have "\<And>i. i \<in> set [0..<nrows df] \<Longrightarrow>
      apply_clean_query (cell_at df i 1)
        = Inr ((\<lambda>i. case cell_at df i 1 of Text s \<Rightarrow> clean_query s | _ \<Rightarrow> []) i)"
    using assms(2) by auto
  then have "map_raise (\<lambda>i. apply_clean_query (cell_at df i 1)) [0..<nrows df]
      = Inr (map (\<lambda>i. case cell_at df i 1 of Text s \<Rightarrow> clean_query s | _ \<Rightarrow> []) [0..<nrows df])"
    by (rule map_raise_all_Inr)
  then show ?thesis using assms(1) by (simp add: all_words_def)
qed

text \<open>
  C3. When the search aggregator returns a table, the table is the header row followed by
  five rows, or one row per distinct token when these are fewer than five, one per token
  of \<open>most_common 5\<close>; each count is the number of
  occurrences of its token in the token stream, so non-negative; the counts sum to at most
  the number of tokens; the rows are in descending order of count and every token left
  out occurs no more often than any token in the table; among the tokens of one count the
  table holds an initial segment of them in the counter's order, which is the order of
  first occurrence. The aggregator returns a table whenever column 1 exists and holds
  text in every row.
\<close>

theorem search_data_top5:
  "(search_data df = Inr table \<longrightarrow>
      (\<exists>ws. all_words df = Inr ws
         \<and> table = [Text ''Query'', Text ''Searches'']
                   # map (\<lambda>(word, n). [Text word, IntNum n]) (most_common 5 (Counter ws))
         \<and> length table \<le> 6
         \<and> list_all (\<lambda>(word, n). 0 \<le> n \<and> n = int (count_list ws word))
              (most_common 5 (Counter ws))
         \<and> sum_list (map snd (most_common 5 (Counter ws))) \<le> int (length ws)
         \<and> sorted (rev (map snd (most_common 5 (Counter ws))))
         \<and> distinct (map fst (most_common 5 (Counter ws)))
         \<and> (\<forall>w. w \<in> set ws \<and> w \<notin> fst ` set (most_common 5 (Counter ws)) \<longrightarrow>
                list_all (\<lambda>(word, n). int (count_list ws w) \<le> n)
                  (most_common 5 (Counter ws)))
         \<and> (\<forall>k. prefix (filter (\<lambda>wc. snd wc = k) (most_common 5 (Counter ws)))
                         (filter (\<lambda>wc. snd wc = k) (Counter ws)))
         \<and> map fst (Counter ws) = rev (remdups (rev ws))
         \<and> length (most_common 5 (Counter ws)) = min 5 (card (set ws))
         \<and> length table = 1 + min 5 (card (set ws))))
   \<and> (1 < ncols df \<and> (\<forall>i<nrows df. \<exists>s. cell_at df i 1 = Text s) \<longrightarrow>
        (\<exists>t. search_data df = Inr t))"
proof (intro conjI impI)
  assume ok: "search_data df = Inr table"
  then obtain ws where ws: "all_words df = Inr ws"
    by (auto simp: search_data_def split: sum.splits)
  let ?rows = "most_common 5 (Counter ws)"
  have sub: "set ?rows \<subseteq> set (Counter ws)"
    by (auto simp: most_common_def dest: in_set_takeD)
  have t: "table = [Text ''Query'', Text ''Searches'']
                   # map (\<lambda>(word, n). [Text word, IntNum n]) ?rows"
    using ok ws by (simp add: search_data_def)
  have len: "length table \<le> 6" unfolding t by (simp add: most_common_def)
  have "length (Counter ws) = length (map fst (Counter ws))" by simp
  also have "\<dots> = card (set ws)"
    unfolding Counter_keys by (simp add: length_remdups_card_conv)
  finally have lenc: "length (Counter ws) = card (set ws)" .
  have len5: "length ?rows = min 5 (card (set ws))"
    by (simp add: most_common_def lenc min.commute)
  have lent: "length table = 1 + min 5 (card (set ws))"
    unfolding t by (simp add: len5)
  have counts: "list_all (\<lambda>(word, n). 0 \<le> n \<and> n = int (count_list ws word)) ?rows"
    unfolding list_all_iff using sub Counter_count by fastforce
  have "\<forall>kc\<in>set (Counter ws). 0 \<le> snd kc"
    using Counter_count by fastforce
  then have total: "sum_list (map snd ?rows) \<le> int (length ws)"
    using most_common_sum [of "Counter ws" 5] by (simp add: Counter_sum)
  have desc: "sorted (rev (map snd ?rows))"
    using take_sort_desc_sorted [of snd 5 "Counter ws"]
    by (simp add: most_common_def sorted_rev_map_iff)
  have "distinct (map fst (sort_desc_stable snd (Counter ws)))"
    using Counter_distinct [of ws]
    by (metis distinct_map sort_desc_stable_distinct sort_desc_stable_set)
  then have dist: "distinct (map fst ?rows)"
    by (simp add: most_common_def take_map [symmetric] distinct_take)
  have top: "\<forall>w. w \<in> set ws \<and> w \<notin> fst ` set ?rows \<longrightarrow>
      list_all (\<lambda>(word, n). int (count_list ws w) \<le> n) ?rows"
  proof (intro allI impI)
    fix w assume w: "w \<in> set ws \<and> w \<notin> fst ` set ?rows"
    then have "map_of (Counter ws) w = Some (int (count_list ws w))"
      by (simp add: Counter_lookup)
    then have mem: "(w, int (count_list ws w)) \<in> set (Counter ws)"
      by (rule map_of_SomeD)
    have out: "(w, int (count_list ws w)) \<notin> set (take 5 (sort_desc_stable snd (Counter ws)))"
      using w by (force simp: most_common_def)
    show "list_all (\<lambda>(word, n). int (count_list ws w) \<le> n) ?rows"
      unfolding list_all_iff
    proof
      fix x assume x: "x \<in> set ?rows"
      then have "x \<in> set (take 5 (sort_desc_stable snd (Counter ws)))"
        by (simp add: most_common_def)
      from take_sort_desc_top [OF this mem out]
      show "case x of (word, n) \<Rightarrow> int (count_list ws w) \<le> n"
        by (cases x) simp
    qed
  qed
  have ties: "\<forall>k. prefix (filter (\<lambda>wc. snd wc = k) ?rows) (filter (\<lambda>wc. snd wc = k) (Counter ws))"
    unfolding most_common_def using take_sort_desc_ties [of snd _ 5 "Counter ws"] by blast
  show "\<exists>ws. all_words df = Inr ws
         \<and> table = [Text ''Query'', Text ''Searches'']
                   # map (\<lambda>(word, n). [Text word, IntNum n]) (most_common 5 (Counter ws))
         \<and> length table \<le> 6
         \<and> list_all (\<lambda>(word, n). 0 \<le> n \<and> n = int (count_list ws word))
              (most_common 5 (Counter ws))
         \<and> sum_list (map snd (most_common 5 (Counter ws))) \<le> int (length ws)
         \<and> sorted (rev (map snd (most_common 5 (Counter ws))))
         \<and> distinct (map fst (most_common 5 (Counter ws)))
         \<and> (\<forall>w. w \<in> set ws \<and> w \<notin> fst ` set (most_common 5 (Counter ws)) \<longrightarrow>
                list_all (\<lambda>(word, n). int (count_list ws w) \<le> n)
                  (most_common 5 (Counter ws)))
         \<and> (\<forall>k. prefix (filter (\<lambda>wc. snd wc = k) (most_common 5 (Counter ws)))
                         (filter (\<lambda>wc. snd wc = k) (Counter ws)))
         \<and> map fst (Counter ws) = rev (remdups (rev ws))
         \<and> length (most_common 5 (Counter ws)) = min 5 (card (set ws))
         \<and> length table = 1 + min 5 (card (set ws))"
    using ws t len counts total desc dist top ties Counter_keys [of ws] len5 lent by blast
next
  assume "1 < ncols df \<and> (\<forall>i<nrows df. \<exists>s. cell_at df i 1 = Text s)"
  then obtain ws where "all_words df = Inr ws" using all_words_total by blast
  then show "\<exists>t. search_data df = Inr t" by (simp add: search_data_def)
qed


theorem search_data_top5_witness:
  "search_data sample_searches_many =
     Inr [[Text ''Query'', Text ''Searches''], [Text ''alpha'', IntNum 3],
          [Text ''beta'', IntNum 3], [Text ''delta'', IntNum 1],
          [Text ''gamma'', IntNum 1], [Text ''epsilon'', IntNum 1]]
   \<and> (\<exists>ws. all_words sample_searches_many = Inr ws
         \<and> sum_list (map snd (most_common 5 (Counter ws))) \<le> int (length ws)
         \<and> sorted (rev (map snd (most_common 5 (Counter ws))))
         \<and> length (most_common 5 (Counter ws)) = min 5 (card (set ws)))
   \<and> all_words sample_searches_many
       = Inr [''delta'', ''alpha'', ''beta'', ''beta'', ''gamma'', ''alpha'', ''epsilon'',
              ''zeta'', ''beta'', ''eta'', ''alpha'']"
proof -
  have h: "search_data sample_searches_many =
     Inr [[Text ''Query'', Text ''Searches''], [Text ''alpha'', IntNum 3],
          [Text ''beta'', IntNum 3], [Text ''delta'', IntNum 1],
          [Text ''gamma'', IntNum 1], [Text ''epsilon'', IntNum 1]]"
    by code_simp
  have w: "all_words sample_searches_many
       = Inr [''delta'', ''alpha'', ''beta'', ''beta'', ''gamma'', ''alpha'', ''epsilon'',
              ''zeta'', ''beta'', ''eta'', ''alpha'']"
    by code_simp
  from search_data_top5 [of sample_searches_many, THEN conjunct1, rule_format, OF h]
  obtain ws where "all_words sample_searches_many = Inr ws"
    and "sum_list (map snd (most_common 5 (Counter ws))) \<le> int (length ws)"
    and "sorted (rev (map snd (most_common 5 (Counter ws))))"
    and "length (most_common 5 (Counter ws)) = min 5 (card (set ws))"
    by blast
  then have "\<exists>ws. all_words sample_searches_many = Inr ws
         \<and> sum_list (map snd (most_common 5 (Counter ws))) \<le> int (length ws)
         \<and> sorted (rev (map snd (most_common 5 (Counter ws))))
         \<and> length (most_common 5 (Counter ws)) = min 5 (card (set ws))"
    by blast
  with h w show ?thesis by (intro conjI)
qed

subsection \<open>The user aggregator\<close>

lemma py_trunc_mono: "a \<le> b \<Longrightarrow> py_trunc a \<le> py_trunc b"
proof -
  assume ab: "a \<le> b"
  consider "0 \<le> a" | "b < 0" | "a < 0" "0 \<le> b" by linarith
  then show ?thesis
  proof cases
    case 1 then show ?thesis using ab by (simp add: py_trunc_def floor_mono)
  next
    case 2 then show ?thesis using ab by (simp add: py_trunc_def ceiling_mono)
  next
    case 3
    have "\<lceil>a\<rceil> \<le> 0" using 3(1) by (simp add: ceiling_le_zero)
    moreover have "0 \<le> \<lfloor>b\<rfloor>" using 3(2) by simp
    moreover have "py_trunc a = \<lceil>a\<rceil>" "py_trunc b = \<lfloor>b\<rfloor>"
      using 3 by (simp_all add: py_trunc_def)
    ultimately show ?thesis by linarith
  qed
qed

lemma rank_inj: "rank x = rank y \<longleftrightarrow> x = y"
  by (cases x; cases y) auto

lemma rank_Fin_le: "rank (Fin a) \<le> rank (Fin b) \<longleftrightarrow> a \<le> b"
  by (simp add: less_eq_prod_def)

lemma py_int_Inr: "py_int x = Inr n \<longleftrightarrow> (\<exists>r. x = Some (Fin r) \<and> n = py_trunc r)"
  by (cases x rule: py_int.cases) auto

lemma user_row_Inr:
  "user_row L df i = Inr row \<longleftrightarrow>
     (\<exists>r. views L df i = Some (Fin r) \<and> row = [cell_at df i 0, IntNum (py_trunc r)])"
  by (auto simp: user_row_def py_int_Inr split: sum.splits)

lemma take_append_left:
  assumes "\<forall>x\<in>set (take n (xs @ ys)). \<not> P x" and "\<forall>y\<in>set ys. P y"
  shows "take n (xs @ ys) = take n xs"
proof -
  have "take (n - length xs) ys = []"
  proof (rule ccontr)
    assume "take (n - length xs) ys \<noteq> []"
    then obtain y where y: "y \<in> set (take (n - length xs) ys)"
      by (meson last_in_set)
    then have "P y" using assms(2) by (meson in_set_takeD)
    moreover have "y \<in> set (take n (xs @ ys))" using y by simp
    ultimately show False using assms(1) by blast
  qed
  then show ?thesis by simp
qed

lemma top_users_numeric:
  assumes "\<forall>i\<in>set (top_users L df). views L df i \<noteq> None"
  shows "top_users L df =
     take 10 (sort_desc_stable (\<lambda>i. rank (the (views L df i)))
                (filter (\<lambda>i. views L df i \<noteq> None) [4 ..< nrows df]))"
proof -
  define S where "S = sort_desc_stable (\<lambda>i. rank (the (views L df i)))
                (filter (\<lambda>i. views L df i \<noteq> None) [4 ..< nrows df])"
  define N where "N = (if keeps_nan L then filter (\<lambda>i. views L df i = None) [4 ..< nrows df] else [])"
  have t: "top_users L df = take 10 (S @ N)"
    by (simp add: top_users_def nlargest_def S_def N_def)
  have n: "\<forall>y\<in>set N. views L df y = None" by (simp add: N_def)
  have a: "\<forall>x\<in>set (take 10 (S @ N)). \<not> views L df x = None"
    using assms unfolding t by blast
  have "take 10 (S @ N) = take 10 S"
    using a n by (rule take_append_left)
  then show ?thesis by (simp add: t S_def)
qed


lemma top_users_subset: "set (top_users L df) \<subseteq> {4 ..< nrows df}"
proof -
  define S where "S = sort_desc_stable (\<lambda>i. rank (the (views L df i)))
                (filter (\<lambda>i. views L df i \<noteq> None) [4 ..< nrows df])"
  define N where "N = (if keeps_nan L then filter (\<lambda>i. views L df i = None) [4 ..< nrows df] else [])"
  have t: "top_users L df = take 10 (S @ N)"
    by (simp add: top_users_def nlargest_def S_def N_def)
  have "set S \<subseteq> {4 ..< nrows df}" by (auto simp: S_def)
  moreover have "set N \<subseteq> {4 ..< nrows df}" by (auto simp: N_def)
  moreover have "set (take 10 (S @ N)) \<subseteq> set (S @ N)" by (rule set_take_subset)
  ultimately show ?thesis unfolding t by auto
qed

lemma user_data_total:
  assumes "3 < ncols df"
    and "\<forall>i. 4 \<le> i \<and> i < nrows df \<longrightarrow> (\<exists>r. views L df i = Some (Fin r))"
  shows "\<exists>t. user_data L df = Inr t"
proof -
  have sub: "set (top_users L df) \<subseteq> {4 ..< nrows df}"
    by (rule top_users_subset)
  have "\<And>i. i \<in> set (top_users L df) \<Longrightarrow>
      user_row L df i
        = Inr [cell_at df i 0, IntNum (case views L df i of Some (Fin r) \<Rightarrow> py_trunc r | _ \<Rightarrow> 0)]"
  proof -
    fix i assume "i \<in> set (top_users L df)"
    then have "4 \<le> i \<and> i < nrows df" using sub by auto
    then obtain r where "views L df i = Some (Fin r)" using assms(2) by blast
    then show "user_row L df i
        = Inr [cell_at df i 0, IntNum (case views L df i of Some (Fin r) \<Rightarrow> py_trunc r | _ \<Rightarrow> 0)]"
      by (simp add: user_row_def)
  qed
  then have "map_raise (user_row L df) (top_users L df)
      = Inr (map (\<lambda>i. [cell_at df i 0,
                 IntNum (case views L df i of Some (Fin r) \<Rightarrow> py_trunc r | _ \<Rightarrow> 0)])
               (top_users L df))"
    by (rule map_raise_all_Inr)
  then show ?thesis using assms(1) by (simp add: user_data_def)
qed

lemma map_raise_list_all2:
  "map_raise f xs = Inr ys \<Longrightarrow> list_all2 (\<lambda>x y. f x = Inr y) xs ys"
  by (induction xs arbitrary: ys) (auto split: sum.splits)

text \<open>
  The tables the user aggregator returns. When it returns a table, its data rows are the
  rows selected by
  \<open>top_users\<close> among the rows from position 4 on: at most ten, as many as there are
  rows holding a number when these are fewer; every selected row holds a finite number
  (a row whose views cell is not coercible is not in the table); the rows are in
  descending order of the number, and so are the emitted integers; every row left out
  that holds a number holds one no greater than each selected row; among the rows of one
  value the table holds an initial segment of them in file order (the first encountered
  win, and come first); each emitted value is the number truncated to an integer. The
  aggregator returns a table whenever column 3 exists and every row from position 4 on
  holds a finite number.
\<close>

theorem user_data_top10:
  "(user_data L df = Inr table \<longrightarrow>
      (\<exists>vs. table = [Text ''User'', Text ''Views'']
                     # map2 (\<lambda>i v. [cell_at df i 0, IntNum v]) (top_users L df) vs
         \<and> length (top_users L df) = length vs
         \<and> length vs = min 10 (length (filter (\<lambda>i. views L df i \<noteq> None) [4 ..< nrows df]))
         \<and> list_all2 (\<lambda>i v. \<exists>r. views L df i = Some (Fin r) \<and> v = py_trunc r)
              (top_users L df) vs
         \<and> sorted (rev vs)
         \<and> sorted_wrt (\<lambda>i j. rank (the (views L df j)) \<le> rank (the (views L df i)))
              (top_users L df)
         \<and> distinct (top_users L df)
         \<and> list_all (\<lambda>i. 4 \<le> i \<and> i < nrows df) (top_users L df)
         \<and> (\<forall>j. 4 \<le> j \<and> j < nrows df \<and> views L df j \<noteq> None
                  \<and> j \<notin> set (top_users L df) \<longrightarrow>
                list_all (\<lambda>i. rank (the (views L df j)) \<le> rank (the (views L df i)))
                  (top_users L df))
         \<and> (\<forall>x. prefix (filter (\<lambda>i. views L df i = Some x) (top_users L df))
                         (filter (\<lambda>i. views L df i = Some x) [4 ..< nrows df]))))
   \<and> (3 < ncols df \<and> (\<forall>i. 4 \<le> i \<and> i < nrows df \<longrightarrow> (\<exists>r. views L df i = Some (Fin r))) \<longrightarrow>
        (\<exists>t. user_data L df = Inr t))"
proof (intro conjI impI)
  assume ok: "user_data L df = Inr table"
  let ?sel = "top_users L df"
  let ?v = "views L df"
  let ?key = "\<lambda>i. rank (the (?v i))"
  let ?num = "filter (\<lambda>i. ?v i \<noteq> None) [4 ..< nrows df]"
  obtain rows where rows: "map_raise (user_row L df) ?sel = Inr rows"
    and t: "table = [Text ''User'', Text ''Views''] # rows"
    using ok by (auto simp: user_data_def split: if_splits sum.splits)
  have l2: "list_all2 (\<lambda>i row. user_row L df i = Inr row) ?sel rows"
    using rows by (rule map_raise_list_all2)
  define g where "g = (\<lambda>i. case ?v i of Some (Fin r) \<Rightarrow> py_trunc r | _ \<Rightarrow> 0)"
  define vs where "vs = map g ?sel"
  have fin: "\<forall>i\<in>set ?sel. \<exists>r. ?v i = Some (Fin r)"
  proof
    fix i assume "i \<in> set ?sel"
    then obtain k where k: "k < length ?sel" "?sel ! k = i"
      by (auto simp: in_set_conv_nth)
    from l2 have "\<forall>k<length ?sel. user_row L df (?sel ! k) = Inr (rows ! k)"
      by (simp add: list_all2_conv_all_nth)
    then have "user_row L df (?sel ! k) = Inr (rows ! k)" using k(1) by blast
    then obtain row where "user_row L df i = Inr row" using k(2) by simp
    then show "\<exists>r. ?v i = Some (Fin r)" by (auto simp: user_row_Inr)
  qed
  have rows_eq: "rows = map (\<lambda>i. [cell_at df i 0, IntNum (g i)]) ?sel"
  proof (rule nth_equalityI)
    show "length rows = length (map (\<lambda>i. [cell_at df i 0, IntNum (g i)]) ?sel)"
      using l2 by (simp add: list_all2_lengthD)
  next
    fix k assume k: "k < length rows"
    then have k': "k < length ?sel" using l2 by (simp add: list_all2_lengthD)
    then have "user_row L df (?sel ! k) = Inr (rows ! k)"
      using l2 by (simp add: list_all2_conv_all_nth)
    then obtain r where "?v (?sel ! k) = Some (Fin r)"
      and "rows ! k = [cell_at df (?sel ! k) 0, IntNum (py_trunc r)]"
      by (auto simp: user_row_Inr)
    then show "rows ! k = map (\<lambda>i. [cell_at df i 0, IntNum (g i)]) ?sel ! k"
      using k' by (simp add: g_def)
  qed
  have c1: "table = [Text ''User'', Text ''Views'']
                     # map2 (\<lambda>i v. [cell_at df i 0, IntNum v]) ?sel vs"
    unfolding t rows_eq vs_def by (simp add: zip_map2 map_zip_map2 zip_same_conv_map)
  have c2: "length ?sel = length vs" by (simp add: vs_def)
  have sel: "?sel = take 10 (sort_desc_stable ?key ?num)"
    using fin by (intro top_users_numeric) auto
  have c3: "length vs = min 10 (length ?num)"
    unfolding vs_def by (subst sel) (simp add: min.commute)
  have c4: "list_all2 (\<lambda>i v. \<exists>r. ?v i = Some (Fin r) \<and> v = py_trunc r) ?sel vs"
    unfolding vs_def list_all2_map2
  proof (intro list_all2_all_nthI)
    show "length ?sel = length ?sel" by simp
  next
    fix n assume "n < length ?sel"
    then obtain r where "?v (?sel ! n) = Some (Fin r)" using fin nth_mem by blast
    then show "\<exists>r. ?v (?sel ! n) = Some (Fin r) \<and> g (?sel ! n) = py_trunc r"
      by (simp add: g_def)
  qed
  have c6: "sorted_wrt (\<lambda>i j. ?key j \<le> ?key i) ?sel"
  proof -
    have "sorted_wrt (\<lambda>i j. ?key j \<le> ?key i) (take 10 (sort_desc_stable ?key ?num))"
      by (rule take_sort_desc_sorted)
    then show ?thesis by (simp only: sel [symmetric])
  qed
  have "sorted_wrt (\<lambda>i j. g j \<le> g i) ?sel"
  proof (rule sorted_wrt_mono_rel [OF _ c6])
    fix i j assume "i \<in> set ?sel" "j \<in> set ?sel" and le: "?key j \<le> ?key i"
    then obtain a b where "?v i = Some (Fin a)" "?v j = Some (Fin b)" using fin by blast
    then show "g j \<le> g i" using le by (simp add: g_def rank_Fin_le py_trunc_mono)
  qed
  then have c5: "sorted (rev vs)" by (simp add: vs_def sorted_rev_map_iff)
  have c7: "distinct ?sel" by (subst sel) simp
  have sub: "set ?sel \<subseteq> set ?num"
    by (subst sel) (auto dest: in_set_takeD)
  have c8: "list_all (\<lambda>i. 4 \<le> i \<and> i < nrows df) ?sel"
    using sub by (auto simp: list_all_iff)
  have c9: "\<forall>j. 4 \<le> j \<and> j < nrows df \<and> ?v j \<noteq> None \<and> j \<notin> set ?sel \<longrightarrow>
                list_all (\<lambda>i. ?key j \<le> ?key i) ?sel"
  proof (intro allI impI)
    fix j assume j: "4 \<le> j \<and> j < nrows df \<and> ?v j \<noteq> None \<and> j \<notin> set ?sel"
    then have mem: "j \<in> set ?num" by simp
    have out: "j \<notin> set (take 10 (sort_desc_stable ?key ?num))"
      using j sel by simp
    show "list_all (\<lambda>i. ?key j \<le> ?key i) ?sel"
      unfolding list_all_iff
    proof
      fix i assume "i \<in> set ?sel"
      then have "i \<in> set (take 10 (sort_desc_stable ?key ?num))" using sel by simp
      from take_sort_desc_top [OF this mem out] show "?key j \<le> ?key i" .
    qed
  qed
  have c10: "\<forall>x. prefix (filter (\<lambda>i. ?v i = Some x) ?sel)
                         (filter (\<lambda>i. ?v i = Some x) [4 ..< nrows df])"
  proof
    fix x
    have p: "prefix (filter (\<lambda>i. ?key i = rank x) (take 10 (sort_desc_stable ?key ?num)))
                    (filter (\<lambda>i. ?key i = rank x) ?num)"
      by (rule take_sort_desc_ties)
    have e1: "filter (\<lambda>i. ?key i = rank x) ?num = filter (\<lambda>i. ?v i = Some x) [4 ..< nrows df]"
      by (auto simp: rank_inj intro!: filter_cong)
    have "filter (\<lambda>i. ?key i = rank x) ?sel = filter (\<lambda>i. ?v i = Some x) ?sel"
      using fin by (intro filter_cong) (auto simp: rank_inj)
    then have e2: "filter (\<lambda>i. ?key i = rank x) (take 10 (sort_desc_stable ?key ?num))
        = filter (\<lambda>i. ?v i = Some x) ?sel"
      using sel by simp
    show "prefix (filter (\<lambda>i. ?v i = Some x) ?sel)
                 (filter (\<lambda>i. ?v i = Some x) [4 ..< nrows df])"
      using p unfolding e1 e2 .
  qed
  show "\<exists>vs. table = [Text ''User'', Text ''Views'']
                     # map2 (\<lambda>i v. [cell_at df i 0, IntNum v]) (top_users L df) vs
         \<and> length (top_users L df) = length vs
         \<and> length vs = min 10 (length (filter (\<lambda>i. views L df i \<noteq> None) [4 ..< nrows df]))
         \<and> list_all2 (\<lambda>i v. \<exists>r. views L df i = Some (Fin r) \<and> v = py_trunc r)
              (top_users L df) vs
         \<and> sorted (rev vs)
         \<and> sorted_wrt (\<lambda>i j. rank (the (views L df j)) \<le> rank (the (views L df i)))
              (top_users L df)
         \<and> distinct (top_users L df)
         \<and> list_all (\<lambda>i. 4 \<le> i \<and> i < nrows df) (top_users L df)
         \<and> (\<forall>j. 4 \<le> j \<and> j < nrows df \<and> views L df j \<noteq> None
                  \<and> j \<notin> set (top_users L df) \<longrightarrow>
                list_all (\<lambda>i. rank (the (views L df j)) \<le> rank (the (views L df i)))
                  (top_users L df))
         \<and> (\<forall>x. prefix (filter (\<lambda>i. views L df i = Some x) (top_users L df))
                         (filter (\<lambda>i. views L df i = Some x) [4 ..< nrows df]))"
    using c1 c2 c3 c4 c5 c6 c7 c8 c9 c10 by blast
next
  assume "3 < ncols df \<and> (\<forall>i. 4 \<le> i \<and> i < nrows df \<longrightarrow> (\<exists>r. views L df i = Some (Fin r)))"
  then show "\<exists>t. user_data L df = Inr t" using user_data_total by blast
qed

theorem user_data_top10_witness:
  "user_data sample_lib sample_users =
     Inr [[Text ''User'', Text ''Views''], [Text ''bob'', IntNum 7],
          [Text ''ann'', IntNum 5], [Text ''cy'', IntNum 5]]
   \<and> (\<exists>vs :: int list. length (top_users sample_lib sample_users) = length vs
         \<and> sorted (rev vs)
         \<and> distinct (top_users sample_lib sample_users))"
proof -
  have h: "user_data sample_lib sample_users =
     Inr [[Text ''User'', Text ''Views''], [Text ''bob'', IntNum 7],
          [Text ''ann'', IntNum 5], [Text ''cy'', IntNum 5]]"
    by code_simp
  from user_data_top10 [of sample_lib sample_users, THEN conjunct1, rule_format, OF h]
  obtain vs :: "int list" where "length (top_users sample_lib sample_users) = length vs"
    and "sorted (rev vs)" and "distinct (top_users sample_lib sample_users)"
    by blast
  then have "\<exists>vs :: int list. length (top_users sample_lib sample_users) = length vs
         \<and> sorted (rev vs)
         \<and> distinct (top_users sample_lib sample_users)"
    by (intro exI conjI)
  with h show ?thesis by (rule conjI)
qed

text \<open>A row whose views cell is not a number, in a file with fewer than ten numeric
  rows: where the library keeps NaN rows the cast of line 90 raises; where it drops them
  the row is left out.\<close>

lemma user_data_nan_row:
  "user_data sample_lib
     (frame_of_rows 4 [[], [], [], [], [Text ''ann'', NaN, NaN, IntNum 5],
                       [Text ''dee'', NaN, NaN, Text ''unknown'']])
     = Inl ValueError
   \<and> user_data (sample_lib\<lparr>keeps_nan := False\<rparr>)
     (frame_of_rows 4 [[], [], [], [], [Text ''ann'', NaN, NaN, IntNum 5],
                       [Text ''dee'', NaN, NaN, Text ''unknown'']])
     = Inr [[Text ''User'', Text ''Views''], [Text ''ann'', IntNum 5]]"
  by code_simp

text \<open>Where the library keeps NaN rows: fewer than ten numeric rows and one row that
  holds no number make the cast of line 90 raise.\<close>

lemma user_data_raises:
  assumes "keeps_nan L"
    and "length (filter (\<lambda>i. views L df i \<noteq> None) [4 ..< nrows df]) < 10"
    and "4 \<le> j" and "j < nrows df" and "views L df j = None"
  shows "\<exists>e. user_data L df = Inl e"
proof (cases "ncols df \<le> 3")
  case True
  then show ?thesis by (simp add: user_data_def)
next
  case False
  define S where "S = sort_desc_stable (\<lambda>i. rank (the (views L df i)))
                (filter (\<lambda>i. views L df i \<noteq> None) [4 ..< nrows df])"
  define N where "N = filter (\<lambda>i. views L df i = None) [4 ..< nrows df]"
  have t: "top_users L df = take 10 (S @ N)"
    using assms(1) by (simp add: top_users_def nlargest_def S_def N_def)
  have ls: "length S < 10" using assms(2) by (simp add: S_def)
  have "j \<in> set N" using assms(3-5) by (simp add: N_def)
  then obtain n ns where N: "N = n # ns" by (cases N) auto
  have "n \<in> set N" by (simp add: N)
  then have nan: "views L df n = None" by (simp add: N_def)
  obtain k where k: "10 - length S = Suc k"
    using ls by (cases "10 - length S") auto
  have "take 10 (S @ N) = S @ n # take k ns"
    using ls by (simp add: k N)
  then have "n \<in> set (take 10 (S @ N))" by simp
  then have mem: "n \<in> set (top_users L df)" by (simp only: t)
  have "user_row L df n = Inl ValueError"
    by (simp add: user_row_def nan)
  from map_raise_Inl [where f = "user_row L df", OF mem this]
  obtain e where "map_raise (user_row L df) (top_users L df) = Inl e" ..
  then show ?thesis using False by (simp add: user_data_def)
qed

text \<open>
  C4 (the code departs from the specification). A users file with two rows from position
  4 on, the views cell of the second blank: the specification leaves the second row out
  and gives the one-row table; the code coerces the blank cell to NaN, \<open>nlargest\<close> of pandas 2 puts
  the NaN row after the numeric row, and \<open>int(views)\<close> on line 90 raises
  \<open>ValueError\<close>, which ends the run.
\<close>

theorem user_data_blank_views_raises:
  "user_data sample_lib sample_users_blank = Inl ValueError
   \<and> run sample_lib (sample_inputs\<lparr>users_xls := Some sample_users_blank\<rparr>)
       = ([], Inl ValueError)"
  by code_simp

subsection \<open>The run\<close>

lemma aggregate_Inr_iff:
  "aggregate L inp cdf = Inr t \<longleftrightarrow>
     (\<exists>qdf q sdf s udf u.
        read_excel (questions_xls inp) = Inr qdf \<and> questions_data L qdf = Inr q
        \<and> read_excel (searches_xls inp) = Inr sdf \<and> search_data sdf = Inr s
        \<and> read_excel (users_xls inp) = Inr udf \<and> user_data L udf = Inr u
        \<and> t = \<lparr>categories_table = [Text ''Categories'', Text ''Views''] # category_data cdf,
                questions_table = q, search_table = s, user_table = u\<rparr>)"
  unfolding aggregate_def by (auto split: sum.splits)

lemma run_Inr_iff:
  "snd (run L inp) = Inr doc \<longleftrightarrow>
     (\<exists>cdf c0 c1 t.
        read_excel (categories_xls inp) = Inr cdf \<and> iloc cdf 0 1 = Inr c0
        \<and> iloc cdf 1 1 = Inr c1 \<and> aggregate L inp cdf = Inr t
        \<and> doc = story (fst (snd (date_range c0 c1))) (snd (snd (date_range c0 c1))) t)"
  unfolding run_def by (auto split: sum.splits prod.splits)

lemma run_reached:
  assumes "read_excel (categories_xls inp) = Inr cdf" and "iloc cdf 0 1 = Inr c0"
    and "iloc cdf 1 1 = Inr c1"
  shows "run L inp =
     (case aggregate L inp cdf of
        Inl e \<Rightarrow> (fst (date_range c0 c1), Inl e)
      | Inr t \<Rightarrow> (fst (date_range c0 c1) @ [''PDF report generated successfully!''],
                  Inr (story (fst (snd (date_range c0 c1))) (snd (snd (date_range c0 c1))) t)))"
  using assms unfolding run_def by (auto split: sum.splits prod.splits)

lemma run_not_reached:
  assumes "\<not> (\<exists>cdf c0 c1. read_excel (categories_xls inp) = Inr cdf \<and> iloc cdf 0 1 = Inr c0
                \<and> iloc cdf 1 1 = Inr c1)"
  shows "\<exists>e. run L inp = ([], Inl e)"
  using assms unfolding run_def by (auto split: sum.splits prod.splits)

lemma date_range_printed:
  "fst (date_range c0 c1) =
     (if to_datetime_format c0 = None \<or> to_datetime_format c1 = None
      then [''Error: Start or end date is missing or invalid in the Excel file.''] else [])"
  by (simp add: date_range_def Let_def)

lemma date_range_unavailable:
  "to_datetime_format c0 = None \<or> to_datetime_format c1 = None \<Longrightarrow>
   snd (date_range c0 c1) = (''Unavailable'', ''Unavailable'')"
  by (auto simp: date_range_def Let_def)



subsection \<open>The date range\<close>



text \<open>
  C7 (fails as stated). A numeric serial date is not converted: the extractor parses
  the cell under the text format, which no number matches, and answers the fallback,
  although \<open>excel_date_to_datetime\<close> would convert the same value.
\<close>

theorem serial_date_counterexample:
  "excel_date_to_datetime (IntNum 45352) = Inr (Some (2024, 3, 1))
   \<and> excel_date_to_datetime (IntNum 45382) = Inr (Some (2024, 3, 31))
   \<and> date_range (IntNum 45352) (IntNum 45382)
       = ([''Error: Start or end date is missing or invalid in the Excel file.''],
          ''Unavailable'', ''Unavailable'')"
  by code_simp

text \<open>
  C7 (amended). The extractor reads the two cells and parses them under the text format
  month/day/year; a cell holding a number, integral or not, never parses, so with a
  numeric serial date in either position both formatted values are "Unavailable" and the
  error line is printed.
\<close>

theorem date_range_numeric_unavailable:
  "date_range (IntNum n) c
     = ([''Error: Start or end date is missing or invalid in the Excel file.''],
        ''Unavailable'', ''Unavailable'')
   \<and> date_range c (IntNum n)
     = ([''Error: Start or end date is missing or invalid in the Excel file.''],
        ''Unavailable'', ''Unavailable'')
   \<and> date_range (FloatNum r) c
     = ([''Error: Start or end date is missing or invalid in the Excel file.''],
        ''Unavailable'', ''Unavailable'')
   \<and> date_range c (FloatNum r)
     = ([''Error: Start or end date is missing or invalid in the Excel file.''],
        ''Unavailable'', ''Unavailable'')"
  by (simp add: date_range_def Let_def)


subsection \<open>Console output\<close>

text \<open>
  C8. Once the date cells are read, the lines printed are the error line when a date
  cell is blank or does not parse (none otherwise), followed by the success line when the
  run completes (none when it aborts); the success line is printed exactly when the
  document is written; a run that fails before the date cells are read prints nothing. In
  the warning case, when the four tables are computed, the run completes: both lines
  are printed and the document is written with "Unavailable" for both dates.
\<close>

theorem console_output:
  "(read_excel (categories_xls inp) = Inr cdf \<and> iloc cdf 0 1 = Inr c0
      \<and> iloc cdf 1 1 = Inr c1 \<longrightarrow>
      fst (run L inp) =
        (if to_datetime_format c0 = None \<or> to_datetime_format c1 = None
         then [''Error: Start or end date is missing or invalid in the Excel file.'']
         else [])
        @ (case snd (run L inp) of
             Inr doc \<Rightarrow> [''PDF report generated successfully!''] | Inl e \<Rightarrow> []))
   \<and> ((\<exists>doc. snd (run L inp) = Inr doc)
        = (''PDF report generated successfully!'' \<in> set (fst (run L inp))))
   \<and> ((\<forall>cdf c0 c1. \<not> (read_excel (categories_xls inp) = Inr cdf \<and> iloc cdf 0 1 = Inr c0
                          \<and> iloc cdf 1 1 = Inr c1)) \<longrightarrow>
        fst (run L inp) = [])
   \<and> (read_excel (categories_xls inp) = Inr cdf \<and> iloc cdf 0 1 = Inr c0
        \<and> iloc cdf 1 1 = Inr c1
        \<and> (to_datetime_format c0 = None \<or> to_datetime_format c1 = None)
        \<and> aggregate L inp cdf = Inr t \<longrightarrow>
        run L inp =
          ([''Error: Start or end date is missing or invalid in the Excel file.'',
            ''PDF report generated successfully!''],
           Inr (story ''Unavailable'' ''Unavailable'' t)))"
proof (intro conjI impI)
  assume a: "read_excel (categories_xls inp) = Inr cdf \<and> iloc cdf 0 1 = Inr c0
      \<and> iloc cdf 1 1 = Inr c1"
  then have r: "run L inp =
     (case aggregate L inp cdf of
        Inl e \<Rightarrow> (fst (date_range c0 c1), Inl e)
      | Inr t \<Rightarrow> (fst (date_range c0 c1) @ [''PDF report generated successfully!''],
                  Inr (story (fst (snd (date_range c0 c1))) (snd (snd (date_range c0 c1))) t)))"
    by (intro run_reached) simp_all
  show "fst (run L inp) =
        (if to_datetime_format c0 = None \<or> to_datetime_format c1 = None
         then [''Error: Start or end date is missing or invalid in the Excel file.'']
         else [])
        @ (case snd (run L inp) of
             Inr doc \<Rightarrow> [''PDF report generated successfully!''] | Inl e \<Rightarrow> [])"
    unfolding r date_range_printed by (cases "aggregate L inp cdf") simp_all
next
  show "(\<exists>doc. snd (run L inp) = Inr doc)
        = (''PDF report generated successfully!'' \<in> set (fst (run L inp)))"
  proof (cases "\<exists>cdf c0 c1. read_excel (categories_xls inp) = Inr cdf \<and> iloc cdf 0 1 = Inr c0
                \<and> iloc cdf 1 1 = Inr c1")
    case True
    then obtain cdf c0 c1 where a: "read_excel (categories_xls inp) = Inr cdf"
      "iloc cdf 0 1 = Inr c0" "iloc cdf 1 1 = Inr c1" by blast
    show ?thesis
      unfolding run_reached [OF a] date_range_printed
      by (cases "aggregate L inp cdf") simp_all
  next
    case False
    then obtain e where "run L inp = ([], Inl e)" using run_not_reached by blast
    then show ?thesis by simp
  qed
next
  assume "\<forall>cdf c0 c1. \<not> (read_excel (categories_xls inp) = Inr cdf \<and> iloc cdf 0 1 = Inr c0
                          \<and> iloc cdf 1 1 = Inr c1)"
  then obtain e where "run L inp = ([], Inl e)" using run_not_reached by blast
  then show "fst (run L inp) = []" by simp
next
  assume a: "read_excel (categories_xls inp) = Inr cdf \<and> iloc cdf 0 1 = Inr c0
        \<and> iloc cdf 1 1 = Inr c1
        \<and> (to_datetime_format c0 = None \<or> to_datetime_format c1 = None)
        \<and> aggregate L inp cdf = Inr t"
  then have r: "run L inp =
     (case aggregate L inp cdf of
        Inl e \<Rightarrow> (fst (date_range c0 c1), Inl e)
      | Inr t \<Rightarrow> (fst (date_range c0 c1) @ [''PDF report generated successfully!''],
                  Inr (story (fst (snd (date_range c0 c1))) (snd (snd (date_range c0 c1))) t)))"
    by (intro run_reached) simp_all
  have u: "snd (date_range c0 c1) = (''Unavailable'', ''Unavailable'')"
    using a by (intro date_range_unavailable) simp
  have p: "fst (date_range c0 c1)
      = [''Error: Start or end date is missing or invalid in the Excel file.'']"
    using a by (simp add: date_range_printed)
  show "run L inp =
          ([''Error: Start or end date is missing or invalid in the Excel file.'',
            ''PDF report generated successfully!''],
           Inr (story ''Unavailable'' ''Unavailable'' t))"
    unfolding r u p using a by simp
qed


subsection \<open>Table shapes\<close>

lemma question_row_length: "question_row L df i = Inr row \<Longrightarrow> length row = 3"
  by (auto simp: question_row_def split: sum.splits)

lemma map_raise_all:
  "map_raise f xs = Inr ys \<Longrightarrow> y \<in> set ys \<Longrightarrow> \<exists>x\<in>set xs. f x = Inr y"
  by (induction xs arbitrary: ys) (auto split: sum.splits)

lemma questions_data_shape:
  assumes "questions_data L df = Inr t"
  shows "t \<noteq> [] \<and> length (hd t) = 3 \<and> (\<forall>row\<in>set t. length row = 3)"
proof -
  obtain rows where r: "map_raise (question_row L df) (row_slice df 4 14) = Inr rows"
    and t: "t = [Text ''Article'', Text ''Views'', Text ''Last Updated''] # rows"
    using assms by (auto simp: questions_data_def split: if_splits sum.splits)
  have "\<forall>row\<in>set rows. length row = 3"
    using map_raise_all [OF r] question_row_length by blast
  then show ?thesis by (simp add: t)
qed

lemma search_data_shape:
  assumes "search_data df = Inr t"
  shows "t \<noteq> [] \<and> length (hd t) = 2 \<and> (\<forall>row\<in>set t. length row = 2)"
  using assms by (auto simp: search_data_def split: sum.splits)

lemma user_data_shape:
  assumes "user_data L df = Inr t"
  shows "t \<noteq> [] \<and> length (hd t) = 2 \<and> (\<forall>row\<in>set t. length row = 2)"
proof -
  obtain rows where r: "map_raise (user_row L df) (top_users L df) = Inr rows"
    and t: "t = [Text ''User'', Text ''Views''] # rows"
    using assms by (auto simp: user_data_def split: if_splits sum.splits)
  have "\<forall>row\<in>set rows. length row = 2"
    using map_raise_all [OF r] by (fastforce simp: user_row_Inr)
  then show ?thesis by (simp add: t)
qed

lemma category_data_shape:
  assumes "iloc df 0 1 = Inr c"
  shows "\<forall>row\<in>set (category_data df). length row = 2"
proof -
  have "1 < ncols df" using assms by (auto simp: iloc_def split: if_splits)
  then show ?thesis by (auto simp: category_data_def)
qed

text \<open>
  C5. In a document that is written, there are four tables, and in each of them every
  row, the header row first, has as many cells as the header row.
\<close>

theorem tables_match_header:
  assumes "snd (run L inp) = Inr doc"
  shows "length (filter is_table doc) = 4
     \<and> (\<forall>t. Table t \<in> set doc \<longrightarrow>
          t \<noteq> [] \<and> list_all (\<lambda>row. length row = length (hd t)) t)"
proof -
  obtain cdf c0 c1 t where c0: "iloc cdf 0 1 = Inr c0"
    and agg: "aggregate L inp cdf = Inr t"
    and doc: "doc = story (fst (snd (date_range c0 c1))) (snd (snd (date_range c0 c1))) t"
    using assms unfolding run_Inr_iff by blast
  obtain qdf q sdf s udf u where q: "questions_data L qdf = Inr q"
    and s: "search_data sdf = Inr s" and u: "user_data L udf = Inr u"
    and t: "t = \<lparr>categories_table = [Text ''Categories'', Text ''Views''] # category_data cdf,
                questions_table = q, search_table = s, user_table = u\<rparr>"
    using agg unfolding aggregate_Inr_iff by blast
  have four: "length (filter is_table doc) = 4"
    by (simp add: doc story_def is_table_def)
  have tabs: "\<forall>x. Table x \<in> set doc \<longrightarrow>
      x = [Text ''Categories'', Text ''Views''] # category_data cdf \<or> x = q \<or> x = s \<or> x = u"
    by (auto simp: doc story_def t)
  have "\<forall>x. Table x \<in> set doc \<longrightarrow>
          x \<noteq> [] \<and> list_all (\<lambda>row. length row = length (hd x)) x"
  proof (intro allI impI)
    fix x assume "Table x \<in> set doc"
    then consider "x = [Text ''Categories'', Text ''Views''] # category_data cdf"
      | "x = q" | "x = s" | "x = u" using tabs by blast
    then show "x \<noteq> [] \<and> list_all (\<lambda>row. length row = length (hd x)) x"
    proof cases
      case 1
      then show ?thesis using category_data_shape [OF c0] by (simp add: list_all_iff)
    next
      case 2
      then show ?thesis using questions_data_shape [OF q] by (simp add: list_all_iff)
    next
      case 3
      then show ?thesis using search_data_shape [OF s] by (simp add: list_all_iff)
    next
      case 4
      then show ?thesis using user_data_shape [OF u] by (simp add: list_all_iff)
    qed
  qed
  with four show ?thesis by simp
qed


theorem console_output_witness:
  "read_excel (categories_xls sample_inputs_undated) = Inr sample_categories_undated
   \<and> iloc sample_categories_undated 0 1 = Inr (Text ''03/01/2024'')
   \<and> iloc sample_categories_undated 1 1 = Inr NaN
   \<and> fst (run sample_lib sample_inputs_undated) =
       [''Error: Start or end date is missing or invalid in the Excel file.'',
        ''PDF report generated successfully!'']"
proof -
  have a: "read_excel (categories_xls sample_inputs_undated) = Inr sample_categories_undated"
    by (simp add: read_excel_def sample_inputs_undated_def)
  have b: "iloc sample_categories_undated 0 1 = Inr (Text ''03/01/2024'')"
    by code_simp
  have c: "iloc sample_categories_undated 1 1 = Inr NaN"
    by code_simp
  have d: "(case snd (run sample_lib sample_inputs_undated) of
              Inr doc \<Rightarrow> [''PDF report generated successfully!''] | Inl e \<Rightarrow> [])
           = [''PDF report generated successfully!'']"
    by code_simp
  have "fst (run sample_lib sample_inputs_undated) =
        (if to_datetime_format (Text ''03/01/2024'') = None \<or> to_datetime_format NaN = None
         then [''Error: Start or end date is missing or invalid in the Excel file.'']
         else [])
        @ (case snd (run sample_lib sample_inputs_undated) of
             Inr doc \<Rightarrow> [''PDF report generated successfully!''] | Inl e \<Rightarrow> [])"
    using console_output [of sample_inputs_undated sample_categories_undated
        "Text ''03/01/2024''" NaN sample_lib] a b c
    by blast
  then have "fst (run sample_lib sample_inputs_undated) =
       [''Error: Start or end date is missing or invalid in the Excel file.'',
        ''PDF report generated successfully!'']"
    unfolding d by simp
  with a b c show ?thesis by (intro conjI)
qed

theorem tables_match_header_witness:
  "snd (run sample_lib sample_inputs)
     = Inr (story ''March 01, 2024'' ''March 31, 2024''
         \<lparr>categories_table =
            [[Text ''Categories'', Text ''Views''], [Text ''Billing'', IntNum 40],
             [Text ''Setup'', Text ''n/a'']],
          questions_table =
            [[Text ''Article'', Text ''Views'', Text ''Last Updated''],
             [Text ''How to log in'', IntNum 12, Text ''March 15, 2024''],
             [Text ''Reset a password'', IntNum 9, Text ''January 01, 1970'']],
          search_table =
            [[Text ''Query'', Text ''Searches''], [Text ''reset'', IntNum 3],
             [Text ''password'', IntNum 2], [Text ''billing_faq'', IntNum 1],
             [Text ''login'', IntNum 1]],
          user_table =
            [[Text ''User'', Text ''Views''], [Text ''bob'', IntNum 7],
             [Text ''ann'', IntNum 5], [Text ''cy'', IntNum 5]]\<rparr>)
   \<and> length (filter is_table (story ''March 01, 2024'' ''March 31, 2024''
         \<lparr>categories_table =
            [[Text ''Categories'', Text ''Views''], [Text ''Billing'', IntNum 40],
             [Text ''Setup'', Text ''n/a'']],
          questions_table =
            [[Text ''Article'', Text ''Views'', Text ''Last Updated''],
             [Text ''How to log in'', IntNum 12, Text ''March 15, 2024''],
             [Text ''Reset a password'', IntNum 9, Text ''January 01, 1970'']],
          search_table =
            [[Text ''Query'', Text ''Searches''], [Text ''reset'', IntNum 3],
             [Text ''password'', IntNum 2], [Text ''billing_faq'', IntNum 1],
             [Text ''login'', IntNum 1]],
          user_table =
            [[Text ''User'', Text ''Views''], [Text ''bob'', IntNum 7],
             [Text ''ann'', IntNum 5], [Text ''cy'', IntNum 5]]\<rparr>)) = 4"
proof -
  have h: "snd (run sample_lib sample_inputs)
     = Inr (story ''March 01, 2024'' ''March 31, 2024''
         \<lparr>categories_table =
            [[Text ''Categories'', Text ''Views''], [Text ''Billing'', IntNum 40],
             [Text ''Setup'', Text ''n/a'']],
          questions_table =
            [[Text ''Article'', Text ''Views'', Text ''Last Updated''],
             [Text ''How to log in'', IntNum 12, Text ''March 15, 2024''],
             [Text ''Reset a password'', IntNum 9, Text ''January 01, 1970'']],
          search_table =
            [[Text ''Query'', Text ''Searches''], [Text ''reset'', IntNum 3],
             [Text ''password'', IntNum 2], [Text ''billing_faq'', IntNum 1],
             [Text ''login'', IntNum 1]],
          user_table =
            [[Text ''User'', Text ''Views''], [Text ''bob'', IntNum 7],
             [Text ''ann'', IntNum 5], [Text ''cy'', IntNum 5]]\<rparr>)"
    by code_simp
  from tables_match_header [OF h] h show ?thesis by (intro conjI) simp_all
qed


subsection \<open>The article aggregator\<close>








text \<open>A blank date cell in the slice: the comprehension raises.\<close>

lemma questions_data_blank_date:
  "questions_data sample_lib
     (frame_of_rows 9 [[], [], [], [],
        [NaN, Text ''How to log in'', NaN, IntNum 12, NaN, NaN, NaN, NaN, NaN]])
   = Inl ValueError"
  by code_simp

subsection \<open>Stage failures and unvalidated cells\<close>

lemma set_cell_simps [simp]:
  "nrows (set_cell df i j v) = nrows df"
  "ncols (set_cell df i j v) = ncols df"
  "cell_at (set_cell df i j v) i' j' = (if i' = i \<and> j' = j then v else cell_at df i' j')"
  by (simp_all add: set_cell_def)

lemma run_completes_iff:
  "(\<exists>doc. snd (run L inp) = Inr doc) =
     (\<exists>cdf c0 c1 qdf q sdf s udf u.
         read_excel (categories_xls inp) = Inr cdf \<and> iloc cdf 0 1 = Inr c0
         \<and> iloc cdf 1 1 = Inr c1
         \<and> read_excel (questions_xls inp) = Inr qdf \<and> questions_data L qdf = Inr q
         \<and> read_excel (searches_xls inp) = Inr sdf \<and> search_data sdf = Inr s
         \<and> read_excel (users_xls inp) = Inr udf \<and> user_data L udf = Inr u)"
  unfolding run_Inr_iff aggregate_Inr_iff by blast

lemma iloc_set_cell: "(\<exists>c. iloc (set_cell df i j v) a b = Inr c) = (\<exists>c. iloc df a b = Inr c)"
  by (simp add: iloc_def)

lemma question_row_set_cell:
  assumes "j \<noteq> 8"
  shows "(\<exists>row. question_row L (set_cell df i j v) k = Inr row)
       = (\<exists>row. question_row L df k = Inr row)"
  using assms by (simp add: question_row_def split: sum.splits)

lemma map_raise_completes_iff:
  "(\<exists>ys. map_raise f xs = Inr ys) = (\<forall>x\<in>set xs. \<exists>y. f x = Inr y)"
  by (induction xs) (auto split: sum.splits)

lemma questions_data_set_cell:
  assumes "j \<noteq> 8"
  shows "(\<exists>t. questions_data L (set_cell df i j v) = Inr t) = (\<exists>t. questions_data L df = Inr t)"
proof -
  have "(\<exists>ys. map_raise (question_row L (set_cell df i j v)) (row_slice df 4 14) = Inr ys)
      = (\<exists>ys. map_raise (question_row L df) (row_slice df 4 14) = Inr ys)"
    unfolding map_raise_completes_iff question_row_set_cell [OF assms] ..
  moreover have "row_slice (set_cell df i j v) 4 14 = row_slice df 4 14"
    by (simp add: row_slice_def)
  ultimately show ?thesis
    by (auto simp: questions_data_def split: sum.splits)
qed


text \<open>
  C6 (fails as stated). A views cell that is no number, in the categories sheet and in
  the articles sheet, both outside the one coercion point: no step fails, the cells go
  into their tables as they are, the document is written and the success line printed.
\<close>

theorem malformed_views_counterexample:
  "cell_at sample_categories_malformed 5 1 = Text ''forty''
   \<and> cell_at sample_questions_malformed 4 3 = Text ''a dozen''
   \<and> run sample_lib sample_inputs_malformed =
       ([''PDF report generated successfully!''],
        Inr (story ''March 01, 2024'' ''March 31, 2024''
          \<lparr>categories_table =
             [[Text ''Categories'', Text ''Views''], [Text ''Billing'', IntNum 40],
              [Text ''Setup'', Text ''forty'']],
           questions_table =
             [[Text ''Article'', Text ''Views'', Text ''Last Updated''],
              [Text ''How to log in'', Text ''a dozen'', Text ''March 15, 2024'']],
           search_table =
             [[Text ''Query'', Text ''Searches''], [Text ''reset'', IntNum 3],
              [Text ''password'', IntNum 2], [Text ''billing_faq'', IntNum 1],
              [Text ''login'', IntNum 1]],
           user_table =
             [[Text ''User'', Text ''Views''], [Text ''bob'', IntNum 7],
              [Text ''ann'', IntNum 5], [Text ''cy'', IntNum 5]]\<rparr>))"
  by code_simp

text \<open>
  C6 (amended). If a read, a positional read of a date cell or an aggregator fails (a
  missing file, a date position outside the sheet, a missing column, a search cell that
  is not text, an article date that is not coercible, a users value that cannot be cast
  to an integer), the run ends with an error, the success line is not printed and no
  document is written: a document is written only if every stage completed. A views
  cell of the categories or of the articles sheet that is no number makes no stage
  fail: the category rows are the cells of the slice as they are, and whether the
  article aggregator returns a table does not depend on any cell outside column 8.
\<close>

theorem run_aborts_on_stage_failure:
  "((\<exists>doc. snd (run L inp) = Inr doc) \<longrightarrow>
      (\<exists>cdf c0 c1 qdf q sdf s udf u.
         read_excel (categories_xls inp) = Inr cdf \<and> iloc cdf 0 1 = Inr c0
         \<and> iloc cdf 1 1 = Inr c1
         \<and> read_excel (questions_xls inp) = Inr qdf \<and> questions_data L qdf = Inr q
         \<and> read_excel (searches_xls inp) = Inr sdf \<and> search_data sdf = Inr s
         \<and> read_excel (users_xls inp) = Inr udf \<and> user_data L udf = Inr u))
   \<and> ((\<forall>doc. snd (run L inp) \<noteq> Inr doc) \<longrightarrow>
        (\<exists>e. snd (run L inp) = Inl e)
        \<and> ''PDF report generated successfully!'' \<notin> set (fst (run L inp)))
   \<and> (categories_xls inp = None \<or> questions_xls inp = None \<or> searches_xls inp = None
        \<or> users_xls inp = None \<longrightarrow>
        (\<exists>e. snd (run L inp) = Inl e))
   \<and> ((categories_xls inp = Some cdf' \<and> (iloc cdf' 0 1 = Inl e' \<or> iloc cdf' 1 1 = Inl e'))
        \<or> (questions_xls inp = Some qdf' \<and> questions_data L qdf' = Inl e')
        \<or> (searches_xls inp = Some sdf' \<and> search_data sdf' = Inl e')
        \<or> (users_xls inp = Some udf' \<and> user_data L udf' = Inl e') \<longrightarrow>
        (\<exists>e. snd (run L inp) = Inl e))
   \<and> (1 < ncols cdf'' \<longrightarrow>
        category_data cdf''
          = map (\<lambda>i. [cell_at cdf'' i 0, cell_at cdf'' i 1]) (row_slice cdf'' 4 14))
   \<and> (j \<noteq> 8 \<longrightarrow>
        (\<exists>t. questions_data L (set_cell qdf'' i j v) = Inr t)
          = (\<exists>t. questions_data L qdf'' = Inr t))"
proof -
  have only_if: "(\<exists>doc. snd (run L inp) = Inr doc) \<longrightarrow>
      (\<exists>cdf c0 c1 qdf q sdf s udf u.
         read_excel (categories_xls inp) = Inr cdf \<and> iloc cdf 0 1 = Inr c0
         \<and> iloc cdf 1 1 = Inr c1
         \<and> read_excel (questions_xls inp) = Inr qdf \<and> questions_data L qdf = Inr q
         \<and> read_excel (searches_xls inp) = Inr sdf \<and> search_data sdf = Inr s
         \<and> read_excel (users_xls inp) = Inr udf \<and> user_data L udf = Inr u)"
    using run_completes_iff [of L inp] by blast
  have none: "(\<forall>doc. snd (run L inp) \<noteq> Inr doc) \<longrightarrow>
        (\<exists>e. snd (run L inp) = Inl e)
        \<and> ''PDF report generated successfully!'' \<notin> set (fst (run L inp))"
  proof
    assume n: "\<forall>doc. snd (run L inp) \<noteq> Inr doc"
    then have e: "\<exists>e. snd (run L inp) = Inl e" by (cases "snd (run L inp)") auto
    have "''PDF report generated successfully!'' \<notin> set (fst (run L inp))"
    proof (cases "\<exists>cdf c0 c1. read_excel (categories_xls inp) = Inr cdf
                    \<and> iloc cdf 0 1 = Inr c0 \<and> iloc cdf 1 1 = Inr c1")
      case True
      then obtain cdf c0 c1 where a: "read_excel (categories_xls inp) = Inr cdf"
        "iloc cdf 0 1 = Inr c0" "iloc cdf 1 1 = Inr c1" by blast
      show ?thesis
        using n unfolding run_reached [OF a] date_range_printed
        by (cases "aggregate L inp cdf") simp_all
    next
      case False
      then obtain e where "run L inp = ([], Inl e)" using run_not_reached by blast
      then show ?thesis by simp
    qed
    with e show "(\<exists>e. snd (run L inp) = Inl e)
        \<and> ''PDF report generated successfully!'' \<notin> set (fst (run L inp))" by simp
  qed
  have missing: "categories_xls inp = None \<or> questions_xls inp = None
        \<or> searches_xls inp = None \<or> users_xls inp = None \<longrightarrow>
        (\<exists>e. snd (run L inp) = Inl e)"
  proof
    assume m: "categories_xls inp = None \<or> questions_xls inp = None
        \<or> searches_xls inp = None \<or> users_xls inp = None"
    have "\<not> (\<exists>doc. snd (run L inp) = Inr doc)"
      unfolding run_completes_iff using m by (auto simp: read_excel_def)
    then show "\<exists>e. snd (run L inp) = Inl e" by (cases "snd (run L inp)") auto
  qed
  have stage: "(categories_xls inp = Some cdf'
          \<and> (iloc cdf' 0 1 = Inl e' \<or> iloc cdf' 1 1 = Inl e'))
        \<or> (questions_xls inp = Some qdf' \<and> questions_data L qdf' = Inl e')
        \<or> (searches_xls inp = Some sdf' \<and> search_data sdf' = Inl e')
        \<or> (users_xls inp = Some udf' \<and> user_data L udf' = Inl e') \<longrightarrow>
        (\<exists>e. snd (run L inp) = Inl e)"
  proof
    assume m: "(categories_xls inp = Some cdf'
          \<and> (iloc cdf' 0 1 = Inl e' \<or> iloc cdf' 1 1 = Inl e'))
        \<or> (questions_xls inp = Some qdf' \<and> questions_data L qdf' = Inl e')
        \<or> (searches_xls inp = Some sdf' \<and> search_data sdf' = Inl e')
        \<or> (users_xls inp = Some udf' \<and> user_data L udf' = Inl e')"
    have "\<not> (\<exists>doc. snd (run L inp) = Inr doc)"
      unfolding run_completes_iff using m by (auto simp: read_excel_def)
    then show "\<exists>e. snd (run L inp) = Inl e" by (cases "snd (run L inp)") auto
  qed
  have cat: "1 < ncols cdf'' \<longrightarrow>
        category_data cdf''
          = map (\<lambda>i. [cell_at cdf'' i 0, cell_at cdf'' i 1]) (row_slice cdf'' 4 14)"
  proof
    assume "1 < ncols cdf''"
    then have "min 2 (ncols cdf'') = 2" by simp
    then have "[0 ..< min 2 (ncols cdf'')] = [0, 1]"
      by (simp add: upt_rec)
    then show "category_data cdf''
          = map (\<lambda>i. [cell_at cdf'' i 0, cell_at cdf'' i 1]) (row_slice cdf'' 4 14)"
      by (simp add: category_data_def)
  qed
  have art: "j \<noteq> 8 \<longrightarrow>
        (\<exists>t. questions_data L (set_cell qdf'' i j v) = Inr t)
          = (\<exists>t. questions_data L qdf'' = Inr t)"
    using questions_data_set_cell by blast
  from only_if none missing stage cat art show ?thesis by (intro conjI)
qed

theorem run_aborts_on_stage_failure_witness:
  "questions_xls sample_inputs_no_articles = None
   \<and> (\<exists>e. snd (run sample_lib sample_inputs_no_articles) = Inl e)
   \<and> (\<exists>doc. snd (run sample_lib sample_inputs_malformed) = Inr doc)
   \<and> (\<exists>q. questions_data sample_lib sample_questions_malformed = Inr q)"
proof -
  have a: "questions_xls sample_inputs_no_articles = None"
    by (simp add: sample_inputs_no_articles_def)
  have 1: "\<exists>e. snd (run sample_lib sample_inputs_no_articles) = Inl e"
    using a
    by (intro run_aborts_on_stage_failure
          [of sample_lib sample_inputs_no_articles, THEN conjunct2, THEN conjunct2,
           THEN conjunct1, rule_format]) simp
  have "isl (snd (run sample_lib sample_inputs_malformed)) = False"
    by code_simp
  then have 2: "\<exists>doc. snd (run sample_lib sample_inputs_malformed) = Inr doc"
    by (cases "snd (run sample_lib sample_inputs_malformed)") auto
  have r: "read_excel (questions_xls sample_inputs_malformed) = Inr sample_questions_malformed"
    by (simp add: read_excel_def sample_inputs_malformed_def)
  from 2 have "\<exists>cdf c0 c1 qdf q sdf s udf u.
         read_excel (categories_xls sample_inputs_malformed) = Inr cdf
         \<and> iloc cdf 0 1 = Inr c0 \<and> iloc cdf 1 1 = Inr c1
         \<and> read_excel (questions_xls sample_inputs_malformed) = Inr qdf
         \<and> questions_data sample_lib qdf = Inr q
         \<and> read_excel (searches_xls sample_inputs_malformed) = Inr sdf
         \<and> search_data sdf = Inr s
         \<and> read_excel (users_xls sample_inputs_malformed) = Inr udf
         \<and> user_data sample_lib udf = Inr u"
    by (rule run_aborts_on_stage_failure
          [of sample_lib sample_inputs_malformed, THEN conjunct1, rule_format])
  then have 3: "\<exists>q. questions_data sample_lib sample_questions_malformed = Inr q"
    using r by auto
  from a 1 2 3 show ?thesis by (intro conjI)
qed

end
